theory Spec2Isabelle
  imports Complex_Main
begin

section \<open>The gVCF aggregator of starling (gvcf_aggregator.cpp)\<close>

text \<open>
  A shallow embedding of \<^verbatim>\<open>starka/src/lib/starling_common/gvcf_aggregator.cpp\<close>.
  The aggregator object is a record that every member function takes and returns;
  the output stream is the string written so far; an \<^verbatim>\<open>assert\<close> that fails, an
  unchecked vector access out of range and a vector resized to a negative
  length are values of the type \<open>error\<close>, which end the run.
  Positions (\<^verbatim>\<open>pos_t\<close>) and qualities are \<open>int\<close>, \<^verbatim>\<open>unsigned\<close> values are \<open>nat\<close>;
  where the source converts a signed difference to \<^verbatim>\<open>unsigned\<close> the wrap-around
  is written out (\<open>to_unsigned\<close>).
\<close>

subsection \<open>Data declared outside the file\<close>

datatype error = AssertFailed | OutOfRange | LengthError

datatype vcf_filter = IndelConflict | SiteConflict | LowGQX | HighDepth

datatype modified_site_gt = NONE | UNKNOWN | ZERO | ONE

datatype star_diindel = NOINDEL | HOM | HET

datatype align_t = MATCH | INSERT | DELETE

type_synonym path_segment = "align_t \<times> nat"

type_synonym path_t = "path_segment list"

record starling_options =
  is_gvcf_min_gqx :: bool
  gvcf_min_gqx :: int
  is_gvcf_max_depth :: bool
  gvcf_max_depth :: nat
  gvcf_block_max_nonref :: real
  gvcf_block_label :: string

record result_set =
  rs_max_gt :: nat
  rs_max_gt_qphred :: int
  snp_qphred :: int

record diploid_genotype =
  is_snp :: bool
  ref_gt :: nat
  genome :: result_set
  poly :: result_set

record site_modifiers =
  is_unknown :: bool
  is_covered :: bool
  is_used_covered :: bool
  is_zero_ploidy :: bool
  is_block :: bool
  modified_gt :: modified_site_gt
  max_gt :: nat
  gqx :: int
  filters :: "vcf_filter set"

record site_info =
  pos :: int
  ref :: char
  n_used_calls :: nat
  n_unused_calls :: nat
  known_counts :: "nat list"
  dgt :: diploid_genotype
  smod :: site_modifiers

text \<open>
  The indel key: the source reads it only through \<^verbatim>\<open>is_breakpoint()\<close>,
  \<^verbatim>\<open>right_pos()\<close>, \<^verbatim>\<open>delete_length()\<close> and \<^verbatim>\<open>insert_length()\<close>; the record
  holds what these accessors return.
\<close>

record indel_key =
  is_breakpoint :: bool
  right_pos :: int
  delete_length :: nat
  insert_length :: nat

record starling_diploid_indel_core =
  dindel_max_gt :: star_diindel
  indel_qphred :: int
  dindel_max_gt_qphred :: int

record starling_indel_report_info =
  vcf_ref_seq :: string
  vcf_indel_seq :: string

record starling_indel_sample_report_info =
  depth :: nat

record indel_modifiers =
  imod_gqx :: int
  imod_filters :: "vcf_filter set"
  cigar :: path_t
  ploidy :: "nat list"
  is_overlap :: bool

record indel_info =
  indel_pos :: int
  ik :: indel_key
  dindel :: starling_diploid_indel_core
  iri :: starling_indel_report_info
  isri :: starling_indel_sample_report_info
  imod :: indel_modifiers

text \<open>
  Modelled from the spec: the block accumulator (\<^verbatim>\<open>_block\<close>, declared in
  gvcf_aggregator.hh): the first member's record, the run length and the
  running minimum of the members' quality.
\<close>

record block_site_record =
  block_record :: site_info
  block_count :: int
  block_gqx_min :: int

text \<open>
  The collaborators the file calls and does not define: the options, the
  reference sequence, the genotype tables of \<^verbatim>\<open>DIGT\<close>, and the renderers
  declared in the headers (\<^verbatim>\<open>get_gt\<close>, \<^verbatim>\<open>write_filters\<close>, \<^verbatim>\<open>is_qual\<close>,
  \<^verbatim>\<open>is_gqx\<close>, \<^verbatim>\<open>get_ploidy\<close>, the printer of an alignment path). They are
  parameters of the model.
\<close>

record env =
  opt :: starling_options
  ref_base :: "int \<Rightarrow> char"
  N_BASE :: nat
  id_to_base :: "nat \<Rightarrow> char"
  expect2 :: "nat \<Rightarrow> nat \<Rightarrow> bool"
  digt_is_het :: "nat \<Rightarrow> bool"
  site_is_qual :: "site_modifiers \<Rightarrow> bool"
  site_is_gqx :: "site_modifiers \<Rightarrow> bool"
  write_filters :: "vcf_filter set \<Rightarrow> string"
  site_get_gt :: "site_info \<Rightarrow> string"
  indel_get_gt :: "indel_info \<Rightarrow> string"
  get_ploidy :: "indel_info \<Rightarrow> int \<Rightarrow> error + nat"
  cigar_str :: "path_t \<Rightarrow> string"

record gvcf_aggregator =
  report_range :: "int \<times> int"
  os :: string
  chrom :: string
  indel_end_pos :: int
  indel_buffer_size :: nat
  site_buffer_size :: nat
  indel_buffer :: "indel_info list"
  site_buffer :: "site_info list"
  block :: block_site_record
  head_pos :: int
  empty_site :: site_info

subsection \<open>Site modifiers\<close>

text \<open>
  Modelled from the spec: \<^verbatim>\<open>site_modifiers::clear\<close> (gvcf_aggregator.hh): no
  flag, no filter, no modified genotype, zero genotype and quality.
\<close>

definition smod_clear :: site_modifiers where
  "smod_clear = \<lparr> is_unknown = False, is_covered = False, is_used_covered = False,
     is_zero_ploidy = False, is_block = False, modified_gt = NONE, max_gt = 0,
     gqx = 0, filters = {} \<rparr>"

definition set_filter :: "vcf_filter \<Rightarrow> site_modifiers \<Rightarrow> site_modifiers" where
  "set_filter f m = m\<lparr> filters := insert f (filters m) \<rparr>"

definition set_site_gt :: "result_set \<Rightarrow> site_modifiers \<Rightarrow> site_modifiers" where
  "set_site_gt rs m = m\<lparr> max_gt := rs_max_gt rs, gqx := rs_max_gt_qphred rs \<rparr>"

definition set_site_filters :: "starling_options \<Rightarrow> site_info \<Rightarrow> site_info" where
  "set_site_filters op si =
     (let si1 = (if is_gvcf_min_gqx op \<and> gqx (smod si) < gvcf_min_gqx op
                 then si\<lparr> smod := set_filter LowGQX (smod si) \<rparr> else si)
      in if is_gvcf_max_depth op \<and> n_used_calls si1 + n_unused_calls si1 > gvcf_max_depth op
         then si1\<lparr> smod := set_filter HighDepth (smod si1) \<rparr> else si1)"

definition add_site_modifiers :: "starling_options \<Rightarrow> site_info \<Rightarrow> site_info" where
  "add_site_modifiers op si =
     (let m0 = smod_clear;
          m1 = m0\<lparr> is_unknown := (ref si = CHR ''N'') \<rparr>;
          m2 = m1\<lparr> is_used_covered := (n_used_calls si \<noteq> 0) \<rparr>;
          m3 = m2\<lparr> is_covered := (is_used_covered m2 \<or> n_unused_calls si \<noteq> 0) \<rparr>;
          m4 = (if is_unknown m3 then m3\<lparr> gqx := 0, max_gt := 0 \<rparr>
                else if rs_max_gt (genome (dgt si)) \<noteq> rs_max_gt (poly (dgt si))
                then m3\<lparr> gqx := 0, max_gt := rs_max_gt (genome (dgt si)) \<rparr>
                else if rs_max_gt_qphred (genome (dgt si)) < rs_max_gt_qphred (poly (dgt si))
                then set_site_gt (genome (dgt si)) m3
                else set_site_gt (poly (dgt si)) m3)
      in set_site_filters op (si\<lparr> smod := m4 \<rparr>))"

subsection \<open>The output stream\<close>

text \<open>
  \<^verbatim>\<open>unsigned(x)\<close> of a signed \<open>x\<close>: the value modulo \<open>2 ^ 32\<close>.
\<close>

definition to_unsigned :: "int \<Rightarrow> nat" where
  "to_unsigned x = nat (x mod 2 ^ 32)"

text \<open>The tabulator between two fields and the end of a line.\<close>

definition tab :: string where
  "tab = [CHR 0x09]"

definition newline :: string where
  "newline = [CHR 0x0A]"

text \<open>\<^verbatim>\<open>operator<<\<close> of the standard library on an integer: its decimal digits.\<close>

function show_nat :: "nat \<Rightarrow> string" where
  "show_nat n = (if n < 10 then [''0123456789'' ! n]
                 else show_nat (n div 10) @ [''0123456789'' ! (n mod 10)])"
  by pat_completeness auto
termination
  by (relation "measure id") auto

declare show_nat.simps [simp del]

definition show_int :: "int \<Rightarrow> string" where
  "show_int i = (if i < 0 then CHR ''-'' # show_nat (nat (- i)) else show_nat (nat i))"

primrec print_vcf_alt_bases ::
  "env \<Rightarrow> nat \<Rightarrow> nat \<Rightarrow> nat list \<Rightarrow> bool \<times> string \<Rightarrow> bool \<times> string" where
  "print_vcf_alt_bases e gt rgt [] acc = acc"
| "print_vcf_alt_bases e gt rgt (b # bs) acc =
     print_vcf_alt_bases e gt rgt bs
       (if b = rgt then acc
        else if expect2 e b gt
        then (True, snd acc @ (if fst acc then '','' else []) @ [id_to_base e b])
        else acc)"

definition print_vcf_alt :: "env \<Rightarrow> nat \<Rightarrow> nat \<Rightarrow> string" where
  "print_vcf_alt e gt rgt =
     (let r = print_vcf_alt_bases e gt rgt [0..<N_BASE e] (False, [])
      in if \<not> fst r then snd r @ ''.'' else snd r)"

definition site_record_text :: "env \<Rightarrow> gvcf_aggregator \<Rightarrow> site_info \<Rightarrow> string" where
  "site_record_text e st si =
     chrom st @ tab @ show_int (pos si + 1) @ tab
     @ ''.'' @ tab
     @ [ref si] @ tab
     @ (if is_unknown (smod si) \<or> is_block (smod si) then ''.''
        else print_vcf_alt e (max_gt (smod si)) (ref_gt (dgt si)))
     @ tab
     @ (if site_is_qual e (smod si) then show_int (snp_qphred (genome (dgt si))) else ''.'')
     @ tab
     @ write_filters e (filters (smod si))
     @ tab
     @ (if is_block (smod si)
        then ''END='' @ show_int (pos si + block_count (block st)) @ '';''
             @ gvcf_block_label (opt e)
        else ''.'')
     @ tab
     @ ''GT:GQX'' @ tab
     @ site_get_gt e si @ '';''
     @ (if site_is_gqx e (smod si)
        then (if is_block (smod si) then show_int (block_gqx_min (block st))
              else show_int (gqx (smod si)))
        else ''.'')
     @ newline"

definition write_site_record :: "env \<Rightarrow> site_info \<Rightarrow> gvcf_aggregator \<Rightarrow> gvcf_aggregator" where
  "write_site_record e si st = st\<lparr> os := os st @ site_record_text e st si \<rparr>"

subsection \<open>Block compression\<close>

text \<open>
  Modelled from the spec: \<^verbatim>\<open>_block.test\<close>, \<^verbatim>\<open>_block.join\<close>, the reset of a
  block and \<^verbatim>\<open>write_block_site_record\<close> (gvcf_aggregator.hh and the block's
  own file, not under src). A site is compatible with the open block when it
  has the chosen genotype and the filters of the block's first member and its
  position follows the block's end; an empty block takes any site. Joining
  records the first member, increments the run length and folds the quality
  into the running minimum. Flushing writes the block's record, when the block
  has a member, and empties the block.
\<close>

definition block_test :: "block_site_record \<Rightarrow> site_info \<Rightarrow> bool" where
  "block_test b si =
     (block_count b = 0 \<or>
      (pos (block_record b) + block_count b = pos si \<and>
       filters (smod (block_record b)) = filters (smod si) \<and>
       max_gt (smod (block_record b)) = max_gt (smod si)))"

definition block_join :: "site_info \<Rightarrow> block_site_record \<Rightarrow> block_site_record" where
  "block_join si b =
     (if block_count b = 0
      then \<lparr> block_record = si\<lparr> smod := (smod si)\<lparr> is_block := True \<rparr> \<rparr>,
             block_count = 1, block_gqx_min = gqx (smod si) \<rparr>
      else b\<lparr> block_count := block_count b + 1,
              block_gqx_min := min (block_gqx_min b) (gqx (smod si)) \<rparr>)"

definition block_reset :: "block_site_record \<Rightarrow> block_site_record" where
  "block_reset b = b\<lparr> block_count := 0 \<rparr>"

definition write_block_site_record :: "env \<Rightarrow> gvcf_aggregator \<Rightarrow> gvcf_aggregator" where
  "write_block_site_record e st =
     (if block_count (block st) \<le> 0 then st
      else (write_site_record e (block_record (block st)) st)
             \<lparr> block := block_reset (block st) \<rparr>)"

text \<open>
  \<^verbatim>\<open>is_site_record_blockable\<close>. The quotient of the two counts is a \<^verbatim>\<open>double\<close>
  in the source; it is the exact quotient here. With no used call the source
  divides by zero: the quotient is a NaN or an infinity, the comparison is
  false and the site is blockable. A read of \<^verbatim>\<open>known_counts\<close> out of range is
  an error.
\<close>

definition is_site_record_blockable :: "starling_options \<Rightarrow> site_info \<Rightarrow> error + bool" where
  "is_site_record_blockable op si =
     (if is_snp (dgt si) then Inr False
      else if ref si \<noteq> CHR ''N''
      then (if ref_gt (dgt si) < length (known_counts si)
            then (if n_used_calls si = 0 then Inr True
                  else if real (known_counts si ! ref_gt (dgt si)) / real (n_used_calls si)
                          + gvcf_block_max_nonref op \<le> 1
                  then Inr False else Inr True)
            else Inl OutOfRange)
      else Inr True)"

definition queue_site_record :: "env \<Rightarrow> site_info \<Rightarrow> gvcf_aggregator \<Rightarrow> error + gvcf_aggregator" where
  "queue_site_record e si st =
     (case is_site_record_blockable (opt e) si of
        Inl err \<Rightarrow> Inl err
      | Inr blockable \<Rightarrow>
          (let st1 = (if \<not> blockable
                      then write_site_record e si (write_block_site_record e st)
                      else st);
               st2 = (if \<not> block_test (block st1) si
                      then write_block_site_record e st1
                      else st1)
           in Inr (st2\<lparr> block := block_join si (block st2) \<rparr>)))"

subsection \<open>Indel records\<close>

definition is_het_indel :: "starling_diploid_indel_core \<Rightarrow> bool" where
  "is_het_indel d = (dindel_max_gt d = HET)"

definition is_no_indel :: "starling_diploid_indel_core \<Rightarrow> bool" where
  "is_no_indel d = (dindel_max_gt d = NOINDEL)"

text \<open>
  \<^verbatim>\<open>is_simple_indel_overlap\<close>: the two reads of the vector are made only when
  the size is 2; they are errors when the vector is shorter.
\<close>

definition is_simple_indel_overlap :: "indel_info list \<Rightarrow> nat \<Rightarrow> error + bool" where
  "is_simple_indel_overlap buf n =
     (if n = 2
      then (if length buf < 2 then Inl OutOfRange
            else Inr (is_het_indel (dindel (buf ! 0)) \<and> is_het_indel (dindel (buf ! 1))))
      else Inr False)"

definition get_hap_cigar :: "indel_key \<Rightarrow> nat \<Rightarrow> nat \<Rightarrow> path_t" where
  "get_hap_cigar k lead trail =
     (if lead \<noteq> 0 then [(MATCH, lead)] else [])
     @ (if delete_length k \<noteq> 0 then [(DELETE, delete_length k)] else [])
     @ (if insert_length k \<noteq> 0 then [(INSERT, insert_length k)] else [])
     @ (if trail \<noteq> 0 then [(MATCH, trail)] else [])"

text \<open>
  \<^verbatim>\<open>add_cigar_to_ploidy\<close>: \<open>add_match\<close> is the inner loop over the bases of a
  match segment, \<open>add_cigar_segments\<close> the outer loop over the segments, with
  the running offset. The vector is indexed without a check in the source.
\<close>

fun add_match :: "nat \<Rightarrow> int \<Rightarrow> nat list \<Rightarrow> error + (int \<times> nat list)" where
  "add_match 0 off pl = Inr (off, pl)"
| "add_match (Suc j) off pl =
     (if off \<ge> 0
      then (if nat off < length pl
            then add_match j (off + 1) (pl[nat off := pl ! nat off + 1])
            else Inl OutOfRange)
      else add_match j (off + 1) pl)"

fun add_cigar_segments :: "path_t \<Rightarrow> int \<Rightarrow> nat list \<Rightarrow> error + nat list" where
  "add_cigar_segments [] off pl = Inr pl"
| "add_cigar_segments ((t, n) # ps) off pl =
     (case t of
        MATCH \<Rightarrow> (case add_match n off pl of
                    Inl err \<Rightarrow> Inl err
                  | Inr r \<Rightarrow> add_cigar_segments ps (fst r) (snd r))
      | DELETE \<Rightarrow> add_cigar_segments ps (off + int n) pl
      | INSERT \<Rightarrow> add_cigar_segments ps off pl)"

definition add_cigar_to_ploidy :: "path_t \<Rightarrow> nat list \<Rightarrow> error + nat list" where
  "add_cigar_to_ploidy apath pl = add_cigar_segments apath (- 1) pl"

definition indel_set_filter :: "vcf_filter \<Rightarrow> indel_modifiers \<Rightarrow> indel_modifiers" where
  "indel_set_filter f m = m\<lparr> imod_filters := insert f (imod_filters m) \<rparr>"

definition add_indel_modifiers :: "starling_options \<Rightarrow> indel_info \<Rightarrow> indel_info" where
  "add_indel_modifiers op ii =
     (let m1 = (imod ii)\<lparr> imod_gqx := min (indel_qphred (dindel ii))
                                         (dindel_max_gt_qphred (dindel ii)) \<rparr>;
          m2 = (if is_gvcf_min_gqx op \<and> imod_gqx m1 < gvcf_min_gqx op
                then indel_set_filter LowGQX m1 else m1);
          m3 = (if is_gvcf_max_depth op \<and> depth (isri ii) > gvcf_max_depth op
                then indel_set_filter HighDepth m2 else m2)
      in ii\<lparr> imod := m3 \<rparr>)"

definition modify_single_indel_record :: "env \<Rightarrow> gvcf_aggregator \<Rightarrow> error + gvcf_aggregator" where
  "modify_single_indel_record e st =
     (if indel_buffer_size st \<noteq> 1 then Inl AssertFailed
      else if indel_buffer st = [] then Inl OutOfRange
      else (let ii = indel_buffer st ! 0;
                ii1 = ii\<lparr> imod := (imod ii)\<lparr> cigar := get_hap_cigar (ik ii) 1 0 \<rparr> \<rparr>
            in Inr (st\<lparr> indel_buffer := (indel_buffer st)[0 := add_indel_modifiers (opt e) ii1] \<rparr>)))"

definition modify_indel_overlap_site ::
  "env \<Rightarrow> indel_info \<Rightarrow> nat \<Rightarrow> site_info \<Rightarrow> error + site_info" where
  "modify_indel_overlap_site e ii pl si =
     (let si0 = si\<lparr> smod := (smod si)\<lparr> filters := filters (smod si) \<inter> imod_filters (imod ii) \<rparr> \<rparr>
      in if pl = 1
         then (let si1 = si0\<lparr> dgt := (dgt si0)\<lparr> genome := (genome (dgt si0))
                             \<lparr> snp_qphred := min (snp_qphred (genome (dgt si0)))
                                                 (indel_qphred (dindel ii)) \<rparr> \<rparr> \<rparr>;
                   si2 = si1\<lparr> smod := (smod si1)\<lparr> gqx := min (gqx (smod si1))
                                                 (dindel_max_gt_qphred (dindel ii)) \<rparr> \<rparr>;
                   si3 = (if digt_is_het e (max_gt (smod si2))
                          then si2\<lparr> smod := (set_filter SiteConflict (smod si2))
                                               \<lparr> modified_gt := UNKNOWN \<rparr> \<rparr>
                          else if max_gt (smod si2) = ref_gt (dgt si2)
                          then si2\<lparr> smod := (smod si2)\<lparr> modified_gt := ZERO \<rparr> \<rparr>
                          else si2\<lparr> smod := (smod si2)\<lparr> modified_gt := ONE \<rparr> \<rparr>)
               in Inr (set_site_filters (opt e) si3))
         else if pl = 0
         then Inr (set_site_filters (opt e)
                (si0\<lparr> smod := (smod si0)\<lparr> modified_gt := UNKNOWN, is_zero_ploidy := True \<rparr> \<rparr>))
         else Inl AssertFailed)"

definition modify_indel_conflict_site :: "site_info \<Rightarrow> site_info" where
  "modify_indel_conflict_site si = si\<lparr> smod := set_filter IndelConflict (smod si) \<rparr>"

text \<open>
  Modelled from the spec: the reference accessor \<^verbatim>\<open>_ref.get_substring\<close>
  (start, length): the bases of \<open>length\<close> consecutive positions.
\<close>

definition get_substring :: "env \<Rightarrow> int \<Rightarrow> nat \<Rightarrow> string" where
  "get_substring e p n = map (\<lambda>i. ref_base e (p + int i)) [0..<n]"

text \<open>
  The value of an \<^verbatim>\<open>unsigned\<close> expression passed as a \<^verbatim>\<open>pos_t\<close>.
\<close>

definition to_pos_t :: "int \<Rightarrow> int" where
  "to_pos_t x = (if x mod 2 ^ 32 < 2 ^ 31 then x mod 2 ^ 32 else x mod 2 ^ 32 - 2 ^ 32)"

text \<open>\<^verbatim>\<open>std::vector::resize(n, 0)\<close>.\<close>

definition resize :: "nat \<Rightarrow> nat list \<Rightarrow> nat list" where
  "resize n xs = take n xs @ replicate (n - length xs) 0"

text \<open>
  The loop over the two haplotypes of \<^verbatim>\<open>modify_overlap_indel_record\<close>.
  \<open>reduce_quals\<close> is the part under \<^verbatim>\<open>if(hap)\<close>: the qualities of the first
  record are lowered to those of the other one. \<open>extend_hap\<close> extends the
  sequence of one haplotype by the reference before and after it and sets its
  alignment path. \<open>overlap_hap\<close> is one round: \<^verbatim>\<open>ii\<close> is a reference to the
  first slot of the buffer, which is also the slot of haplotype 0.
\<close>

definition reduce_quals :: "indel_info \<Rightarrow> indel_info \<Rightarrow> indel_info" where
  "reduce_quals ii other =
     (let ii1 = (if indel_qphred (dindel ii) > indel_qphred (dindel other)
                 then ii\<lparr> dindel := (dindel ii)\<lparr> indel_qphred := indel_qphred (dindel other) \<rparr> \<rparr>
                 else ii)
      in if dindel_max_gt_qphred (dindel ii1) > dindel_max_gt_qphred (dindel other)
         then ii1\<lparr> dindel := (dindel ii1)\<lparr> dindel_max_gt_qphred :=
                                 dindel_max_gt_qphred (dindel other) \<rparr> \<rparr>
         else ii1)"

definition extend_hap :: "env \<Rightarrow> int \<Rightarrow> int \<Rightarrow> indel_info \<Rightarrow> indel_info" where
  "extend_hap e indel_begin_pos end_pos h =
     (let leading_seq = get_substring e indel_begin_pos
                          (to_unsigned ((indel_pos h - indel_begin_pos) - 1));
          trail_len = to_unsigned (end_pos - right_pos (ik h));
          trailing_seq = get_substring e (to_pos_t (end_pos - int trail_len)) trail_len;
          h1 = h\<lparr> iri := (iri h)\<lparr> vcf_indel_seq :=
                        leading_seq @ vcf_indel_seq (iri h) @ trailing_seq \<rparr> \<rparr>
      in h1\<lparr> imod := (imod h1)\<lparr> cigar :=
                 get_hap_cigar (ik h1) (to_unsigned (int (length leading_seq) + 1))
                               (length trailing_seq) \<rparr> \<rparr>)"

definition overlap_hap :: "env \<Rightarrow> nat \<Rightarrow> gvcf_aggregator \<Rightarrow> error + gvcf_aggregator" where
  "overlap_hap e hap st =
     (if \<not> hap < length (indel_buffer st) then Inl OutOfRange
      else
       (let buf = indel_buffer st;
            indel_begin_pos = indel_pos (buf ! 0) - 1;
            buf1 = (if hap \<noteq> 0 then buf[0 := reduce_quals (buf ! 0) (buf ! hap)] else buf);
            buf2 = buf1[hap := extend_hap e indel_begin_pos (indel_end_pos st) (buf1 ! hap)]
        in case add_cigar_to_ploidy (cigar (imod (buf2 ! hap))) (ploidy (imod (buf2 ! 0))) of
             Inl err \<Rightarrow> Inl err
           | Inr pl \<Rightarrow>
               Inr (st\<lparr> indel_buffer :=
                      buf2[0 := (buf2 ! 0)\<lparr> imod := (imod (buf2 ! 0))\<lparr> ploidy := pl \<rparr> \<rparr>] \<rparr>)))"

definition modify_overlap_indel_record :: "env \<Rightarrow> gvcf_aggregator \<Rightarrow> error + gvcf_aggregator" where
  "modify_overlap_indel_record e st =
     (if indel_buffer_size st \<noteq> 2 then Inl AssertFailed
      else if indel_buffer st = [] then Inl OutOfRange
      else
       (let ii = indel_buffer st ! 0;
            ii1 = ii\<lparr> imod := (imod ii)\<lparr> is_overlap := True \<rparr> \<rparr>;
            indel_begin_pos = indel_pos ii1 - 1;
            ii2 = ii1\<lparr> iri := (iri ii1)\<lparr> vcf_ref_seq :=
                     get_substring e indel_begin_pos
                       (to_unsigned (indel_end_pos st - indel_begin_pos)) \<rparr> \<rparr>
        in if indel_end_pos st - indel_pos ii2 < 0 then Inl LengthError
           else
            (let ii3 = ii2\<lparr> imod := (imod ii2)\<lparr> ploidy :=
                          resize (nat (indel_end_pos st - indel_pos ii2)) (ploidy (imod ii2)) \<rparr> \<rparr>;
                 st1 = st\<lparr> indel_buffer := (indel_buffer st)[0 := ii3] \<rparr>
             in case overlap_hap e 0 st1 of
                  Inl err \<Rightarrow> Inl err
                | Inr st2 \<Rightarrow>
                    (case overlap_hap e 1 st2 of
                       Inl err \<Rightarrow> Inl err
                     | Inr st3 \<Rightarrow>
                         Inr (st3\<lparr> indel_buffer := (indel_buffer st3)
                                [0 := add_indel_modifiers (opt e) (indel_buffer st3 ! 0)] \<rparr>)))))"

text \<open>
  \<^verbatim>\<open>modify_conflict_indel_record\<close>: \<open>conflict_indel\<close> is the body of the loop,
  \<open>modify_conflict_indels\<close> the loop over the indices of the buffer.
\<close>

definition conflict_indel :: "starling_options \<Rightarrow> indel_info \<Rightarrow> indel_info" where
  "conflict_indel op ii =
     (let ii1 = ii\<lparr> imod := (imod ii)\<lparr> cigar := get_hap_cigar (ik ii) 1 0 \<rparr> \<rparr>;
          ii2 = ii1\<lparr> imod := indel_set_filter IndelConflict (imod ii1) \<rparr>
      in add_indel_modifiers op ii2)"

fun modify_conflict_indels ::
  "starling_options \<Rightarrow> nat list \<Rightarrow> indel_info list \<Rightarrow> error + indel_info list" where
  "modify_conflict_indels op [] buf = Inr buf"
| "modify_conflict_indels op (i # is) buf =
     (if \<not> i < length buf then Inl OutOfRange
      else modify_conflict_indels op is (buf[i := conflict_indel op (buf ! i)]))"

definition modify_conflict_indel_record :: "env \<Rightarrow> gvcf_aggregator \<Rightarrow> error + gvcf_aggregator" where
  "modify_conflict_indel_record e st =
     (if \<not> indel_buffer_size st > 1 then Inl AssertFailed
      else (case modify_conflict_indels (opt e) [0..<indel_buffer_size st] (indel_buffer st) of
              Inl err \<Rightarrow> Inl err
            | Inr buf \<Rightarrow> Inr (st\<lparr> indel_buffer := buf \<rparr>)))"

text \<open>Joining with commas, as the two loops of \<^verbatim>\<open>write_indel_record\<close> do.\<close>

fun comma_join :: "string list \<Rightarrow> string" where
  "comma_join [] = []"
| "comma_join [x] = x"
| "comma_join (x # y # zs) = x @ '','' @ comma_join (y # zs)"

definition indel_record_text :: "env \<Rightarrow> gvcf_aggregator \<Rightarrow> nat \<Rightarrow> nat \<Rightarrow> string" where
  "indel_record_text e st write_index end_index =
     (let ii = indel_buffer st ! write_index;
          members = map (\<lambda>i. indel_buffer st ! i) [write_index..<end_index + 1]
      in chrom st @ tab @ show_int (indel_pos ii) @ tab
         @ ''.'' @ tab
         @ vcf_ref_seq (iri ii) @ tab
         @ comma_join (map (\<lambda>m. vcf_indel_seq (iri m)) members) @ tab
         @ show_int (indel_qphred (dindel ii)) @ tab
         @ write_filters e (imod_filters (imod ii)) @ tab
         @ ''CIGAR='' @ comma_join (map (\<lambda>m. cigar_str e (cigar (imod m))) members) @ tab
         @ ''GT:GQX'' @ tab
         @ indel_get_gt e ii @ '':'' @ show_int (imod_gqx (imod ii)) @ newline)"

definition write_indel_record :: "env \<Rightarrow> nat \<Rightarrow> gvcf_aggregator \<Rightarrow> error + gvcf_aggregator" where
  "write_indel_record e write_index st =
     (if \<not> indel_buffer_size st > 0 then Inl AssertFailed
      else (let st1 = write_block_site_record e st
            in if \<not> write_index < length (indel_buffer st1) then Inl OutOfRange
               else (let ii = indel_buffer st1 ! write_index;
                         end_index = (if is_overlap (imod ii) then write_index + 1 else write_index)
                     in if \<not> end_index < length (indel_buffer st1) then Inl OutOfRange
                        else Inr (st1\<lparr> os := os st1 @ indel_record_text e st1 write_index end_index \<rparr>))))"

subsection \<open>Finalizing a group of overlapping indels\<close>

text \<open>
  The first part of \<^verbatim>\<open>process_overlaps\<close>: the buffered indel records are
  modified; the flag returned is \<^verbatim>\<open>is_conflict_print\<close>.
\<close>

definition modify_indel_records :: "env \<Rightarrow> gvcf_aggregator \<Rightarrow> error + (gvcf_aggregator \<times> bool)" where
  "modify_indel_records e st =
     (if indel_buffer_size st = 1
      then (case modify_single_indel_record e st of
              Inl err \<Rightarrow> Inl err
            | Inr st1 \<Rightarrow> Inr (st1, False))
      else (case is_simple_indel_overlap (indel_buffer st) (indel_buffer_size st) of
              Inl err \<Rightarrow> Inl err
            | Inr simple \<Rightarrow>
                if simple
                then (case modify_overlap_indel_record e st of
                        Inl err \<Rightarrow> Inl err
                      | Inr st1 \<Rightarrow> Inr (st1, False))
                else (case modify_conflict_indel_record e st of
                        Inl err \<Rightarrow> Inl err
                      | Inr st1 \<Rightarrow> Inr (st1, True))))"

text \<open>
  The loop over the buffered sites: the list holds the indices still to visit.
\<close>

fun modify_sites ::
  "env \<Rightarrow> bool \<Rightarrow> indel_info list \<Rightarrow> nat list \<Rightarrow> site_info list \<Rightarrow> error + site_info list" where
  "modify_sites e is_conflict_print ibuf [] sbuf = Inr sbuf"
| "modify_sites e is_conflict_print ibuf (i # is) sbuf =
     (if \<not> i < length sbuf \<or> ibuf = [] then Inl OutOfRange
      else (let offset = pos (sbuf ! i) - indel_pos (ibuf ! 0)
            in if \<not> offset \<ge> 0 then Inl AssertFailed
               else if \<not> is_conflict_print
               then (case get_ploidy e (ibuf ! 0) offset of
                       Inl err \<Rightarrow> Inl err
                     | Inr pl \<Rightarrow>
                         (case modify_indel_overlap_site e (ibuf ! 0) pl (sbuf ! i) of
                            Inl err \<Rightarrow> Inl err
                          | Inr si \<Rightarrow> modify_sites e is_conflict_print ibuf is (sbuf[i := si])))
               else modify_sites e is_conflict_print ibuf is
                      (sbuf[i := modify_indel_conflict_site (sbuf ! i)])))"

text \<open>
  What the writers leave alone: everything but the stream and the block.
\<close>

definition same_buffers :: "gvcf_aggregator \<Rightarrow> gvcf_aggregator \<Rightarrow> bool" where
  "same_buffers st st' =
     (indel_buffer_size st' = indel_buffer_size st \<and> site_buffer_size st' = site_buffer_size st
      \<and> indel_buffer st' = indel_buffer st \<and> site_buffer st' = site_buffer st
      \<and> head_pos st' = head_pos st \<and> indel_end_pos st' = indel_end_pos st
      \<and> chrom st' = chrom st \<and> report_range st' = report_range st
      \<and> empty_site st' = empty_site st)"

lemma same_buffers_refl: "same_buffers st st"
  by (simp add: same_buffers_def)

lemma same_buffers_trans: "same_buffers a b \<Longrightarrow> same_buffers b c \<Longrightarrow> same_buffers a c"
  by (simp add: same_buffers_def)

lemma write_site_record_same: "same_buffers st (write_site_record e si st)"
  by (simp add: same_buffers_def write_site_record_def)

lemma write_block_site_record_same: "same_buffers st (write_block_site_record e st)"
  by (simp add: same_buffers_def write_block_site_record_def write_site_record_def)

lemma queue_site_record_same:
  "queue_site_record e si st = Inr st' \<Longrightarrow> same_buffers st st'"
  by (auto simp: queue_site_record_def same_buffers_def write_block_site_record_def
        write_site_record_def Let_def split: sum.splits if_splits)

lemma write_indel_record_same:
  "write_indel_record e i st = Inr st' \<Longrightarrow> same_buffers st st'"
  by (auto simp: write_indel_record_def same_buffers_def write_block_site_record_def
        write_site_record_def Let_def split: if_splits)

text \<open>
  The last loop of \<^verbatim>\<open>process_overlaps\<close>: the indel and the site records are
  written in the order of their positions.
\<close>

function emit_records ::
  "env \<Rightarrow> bool \<Rightarrow> nat \<Rightarrow> nat \<Rightarrow> gvcf_aggregator \<Rightarrow> error + gvcf_aggregator" where
  "emit_records e is_conflict_print indel_index site_index st =
     (if \<not> (indel_index < indel_buffer_size st \<or> site_index < site_buffer_size st) then Inr st
      else if indel_index < indel_buffer_size st \<and> site_index < site_buffer_size st
              \<and> \<not> (indel_index < length (indel_buffer st) \<and> site_index < length (site_buffer st))
      then Inl OutOfRange
      else if indel_index < indel_buffer_size st
              \<and> (\<not> site_index < site_buffer_size st
                  \<or> indel_pos (indel_buffer st ! indel_index) \<le> pos (site_buffer st ! site_index))
      then (case write_indel_record e indel_index st of
              Inl err \<Rightarrow> Inl err
            | Inr st1 \<Rightarrow>
                emit_records e is_conflict_print
                  (if is_conflict_print then indel_index + 1 else indel_buffer_size st1)
                  site_index st1)
      else if \<not> site_index < length (site_buffer st) then Inl OutOfRange
      else (case queue_site_record e (site_buffer st ! site_index) st of
              Inl err \<Rightarrow> Inl err
            | Inr st1 \<Rightarrow> emit_records e is_conflict_print indel_index (site_index + 1) st1))"
  by pat_completeness auto
termination
proof (relation "measure (\<lambda>(e, c, i, j, st). (indel_buffer_size st - i) + (site_buffer_size st - j))")
  show "wf (measure (\<lambda>(e, c, i, j, st). (indel_buffer_size st - i) + (site_buffer_size st - j)))"
    by simp
next
  fix e :: env and is_conflict_print :: bool and indel_index site_index :: nat
    and st st1 :: gvcf_aggregator
  assume a: "indel_index < indel_buffer_size st
              \<and> (\<not> site_index < site_buffer_size st
                  \<or> indel_pos (indel_buffer st ! indel_index) \<le> pos (site_buffer st ! site_index))"
    and w: "write_indel_record e indel_index st = Inr st1"
  from write_indel_record_same [OF w] a
  show "((e, is_conflict_print,
          if is_conflict_print then indel_index + 1 else indel_buffer_size st1, site_index, st1),
         (e, is_conflict_print, indel_index, site_index, st))
        \<in> measure (\<lambda>(e, c, i, j, st). (indel_buffer_size st - i) + (site_buffer_size st - j))"
    by (auto simp: same_buffers_def)
next
  fix e :: env and is_conflict_print :: bool and indel_index site_index :: nat
    and st st1 :: gvcf_aggregator
  assume a: "\<not> \<not> (indel_index < indel_buffer_size st \<or> site_index < site_buffer_size st)"
    and b: "\<not> (indel_index < indel_buffer_size st
              \<and> (\<not> site_index < site_buffer_size st
                  \<or> indel_pos (indel_buffer st ! indel_index) \<le> pos (site_buffer st ! site_index)))"
    and q: "queue_site_record e (site_buffer st ! site_index) st = Inr st1"
  from queue_site_record_same [OF q] a b
  show "((e, is_conflict_print, indel_index, site_index + 1, st1),
         (e, is_conflict_print, indel_index, site_index, st))
        \<in> measure (\<lambda>(e, c, i, j, st). (indel_buffer_size st - i) + (site_buffer_size st - j))"
    by (auto simp: same_buffers_def)
qed

declare emit_records.simps [simp del]

definition process_overlaps :: "env \<Rightarrow> gvcf_aggregator \<Rightarrow> error + gvcf_aggregator" where
  "process_overlaps e st =
     (if indel_buffer_size st = 0 then Inr st
      else (case modify_indel_records e st of
              Inl err \<Rightarrow> Inl err
            | Inr r \<Rightarrow>
                (let st1 = fst r;
                     is_conflict_print = snd r;
                     st2 = st1\<lparr> os := os st1 @ ''INDEL_SIZE: ''
                                  @ show_nat (indel_buffer_size st1) @ newline \<rparr>
                 in case modify_sites e is_conflict_print (indel_buffer st2)
                           [0..<site_buffer_size st2] (site_buffer st2) of
                      Inl err \<Rightarrow> Inl err
                    | Inr sbuf \<Rightarrow>
                        (case emit_records e is_conflict_print 0 0 (st2\<lparr> site_buffer := sbuf \<rparr>) of
                           Inl err \<Rightarrow> Inl err
                         | Inr st3 \<Rightarrow>
                             Inr (st3\<lparr> indel_buffer_size := 0, site_buffer_size := 0 \<rparr>)))))"

subsection \<open>Submitting sites and indels\<close>

text \<open>
  Modelled from the spec: a default-constructed \<^verbatim>\<open>site_info\<close> and
  \<^verbatim>\<open>get_empty_site\<close> (gvcf_aggregator.hh): the synthesized empty site has an
  unknown reference base and no evidence; \<^verbatim>\<open>get_empty_site\<close> gives it the
  position asked for.
\<close>

definition site_info_init :: site_info where
  "site_info_init =
     \<lparr> pos = 0, ref = CHR ''N'', n_used_calls = 0, n_unused_calls = 0,
       known_counts = [0, 0, 0, 0],
       dgt = \<lparr> is_snp = False, ref_gt = 0,
               genome = \<lparr> rs_max_gt = 0, rs_max_gt_qphred = 0, snp_qphred = 0 \<rparr>,
               poly = \<lparr> rs_max_gt = 0, rs_max_gt_qphred = 0, snp_qphred = 0 \<rparr> \<rparr>,
       smod = smod_clear \<rparr>"

definition get_empty_site :: "int \<Rightarrow> gvcf_aggregator \<Rightarrow> site_info" where
  "get_empty_site p st = (empty_site st)\<lparr> pos := p \<rparr>"

text \<open>
  Modelled from the spec: a default-constructed \<^verbatim>\<open>indel_info\<close> and
  \<^verbatim>\<open>indel_info::init\<close> (gvcf_aggregator.hh): the call's five parts are stored
  and the derived modifiers start empty.
\<close>

definition imod_clear :: indel_modifiers where
  "imod_clear = \<lparr> imod_gqx = 0, imod_filters = {}, cigar = [], ploidy = [], is_overlap = False \<rparr>"

definition indel_info_init :: indel_info where
  "indel_info_init =
     \<lparr> indel_pos = 0,
       ik = \<lparr> is_breakpoint = False, right_pos = 0, delete_length = 0, insert_length = 0 \<rparr>,
       dindel = \<lparr> dindel_max_gt = NOINDEL, indel_qphred = 0, dindel_max_gt_qphred = 0 \<rparr>,
       iri = \<lparr> vcf_ref_seq = [], vcf_indel_seq = [] \<rparr>,
       isri = \<lparr> depth = 0 \<rparr>,
       imod = imod_clear \<rparr>"

definition init ::
  "int \<Rightarrow> indel_key \<Rightarrow> starling_diploid_indel_core \<Rightarrow> starling_indel_report_info
   \<Rightarrow> starling_indel_sample_report_info \<Rightarrow> indel_info" where
  "init init_pos init_ik init_dindel init_iri init_isri =
     \<lparr> indel_pos = init_pos, ik = init_ik, dindel = init_dindel, iri = init_iri,
       isri = init_isri, imod = imod_clear \<rparr>"

text \<open>
  \<^verbatim>\<open>while(v.size() <= n) v.push_back(T())\<close>: the vector grows until the index
  \<open>n\<close> is in range.
\<close>

definition grow :: "'a \<Rightarrow> nat \<Rightarrow> 'a list \<Rightarrow> 'a list" where
  "grow d n v = v @ replicate (n + 1 - length v) d"

text \<open>
  The finalization of a group changes neither the cursor nor the right bound
  and empties the indel buffer; \<open>skip_to_pos\<close> below terminates because of
  the first.
\<close>

lemma emit_records_same:
  "emit_records e c i j st = Inr st' \<Longrightarrow> same_buffers st st'"
proof (induction e c i j st rule: emit_records.induct)
  case (1 e c i j st)
  note unf = emit_records.simps [of e c i j st]
  show ?case
  proof (cases "\<not> (i < indel_buffer_size st \<or> j < site_buffer_size st)")
    case True
    from "1.prems" have "st' = st"
      unfolding unf if_P [OF True] by simp
    then show ?thesis
      by (simp add: same_buffers_def)
  next
    case False
    note active = this
    show ?thesis
    proof (cases "i < indel_buffer_size st \<and> j < site_buffer_size st
              \<and> \<not> (i < length (indel_buffer st) \<and> j < length (site_buffer st))")
      case True
      from "1.prems" show ?thesis
        unfolding unf if_not_P [OF active] if_P [OF True] by simp
    next
      case False
      note inrange = this
      show ?thesis
      proof (cases "i < indel_buffer_size st
              \<and> (\<not> j < site_buffer_size st
                  \<or> indel_pos (indel_buffer st ! i) \<le> pos (site_buffer st ! j))")
        case True
        from "1.prems"
        obtain st1 where w: "write_indel_record e i st = Inr st1"
          and r: "emit_records e c (if c then i + 1 else indel_buffer_size st1) j st1 = Inr st'"
          unfolding unf if_not_P [OF active] if_not_P [OF inrange] if_P [OF True]
          by (auto split: sum.splits)
        from "1.IH"(1) [OF active inrange True w r] write_indel_record_same [OF w]
        show ?thesis
          by (rule same_buffers_trans [rotated])
      next
        case False
        from "1.prems"
        obtain st1 where l: "j < length (site_buffer st)"
          and q: "queue_site_record e (site_buffer st ! j) st = Inr st1"
          and r: "emit_records e c i (j + 1) st1 = Inr st'"
          unfolding unf if_not_P [OF active] if_not_P [OF inrange] if_not_P [OF False]
          by (auto split: sum.splits if_splits)
        from l have nl: "\<not> \<not> j < length (site_buffer st)"
          by simp
        from "1.IH"(2) [OF active inrange False nl q r] queue_site_record_same [OF q]
        show ?thesis
          by (rule same_buffers_trans [rotated])
      qed
    qed
  qed
qed

lemma modify_single_indel_record_frame:
  "modify_single_indel_record e st = Inr st' \<Longrightarrow> \<exists>b. st' = st\<lparr> indel_buffer := b \<rparr>"
  by (auto simp: modify_single_indel_record_def Let_def split: if_splits)

lemma overlap_hap_frame:
  "overlap_hap e hap st = Inr st' \<Longrightarrow> \<exists>b. st' = st\<lparr> indel_buffer := b \<rparr>"
  by (auto simp: overlap_hap_def Let_def split: if_splits sum.splits)

lemma modify_overlap_indel_record_frame:
  assumes "modify_overlap_indel_record e st = Inr st'"
  shows "\<exists>b. st' = st\<lparr> indel_buffer := b \<rparr>"
proof -
  from assms obtain b0 st2 st3 b3 where
    h0: "overlap_hap e 0 (st\<lparr> indel_buffer := b0 \<rparr>) = Inr st2"
    and h1: "overlap_hap e 1 st2 = Inr st3"
    and r: "st' = st3\<lparr> indel_buffer := b3 \<rparr>"
    by (auto simp: modify_overlap_indel_record_def Let_def split: if_splits sum.splits)
  from overlap_hap_frame [OF h0] obtain b1 where "st2 = st\<lparr> indel_buffer := b0 \<rparr>\<lparr> indel_buffer := b1 \<rparr>"
    by blast
  moreover from overlap_hap_frame [OF h1] obtain b2 where "st3 = st2\<lparr> indel_buffer := b2 \<rparr>"
    by blast
  ultimately have "st' = st\<lparr> indel_buffer := b3 \<rparr>"
    using r by simp
  then show ?thesis
    by blast
qed

lemma modify_conflict_indel_record_frame:
  "modify_conflict_indel_record e st = Inr st' \<Longrightarrow> \<exists>b. st' = st\<lparr> indel_buffer := b \<rparr>"
  by (auto simp: modify_conflict_indel_record_def split: if_splits sum.splits)

lemma modify_indel_records_frame:
  "modify_indel_records e st = Inr r \<Longrightarrow> \<exists>b. fst r = st\<lparr> indel_buffer := b \<rparr>"
  by (auto simp: modify_indel_records_def split: if_splits sum.splits
        dest: modify_single_indel_record_frame modify_overlap_indel_record_frame
              modify_conflict_indel_record_frame)

lemma process_overlaps_frame:
  assumes "process_overlaps e st = Inr st'"
  shows "head_pos st' = head_pos st \<and> indel_end_pos st' = indel_end_pos st
         \<and> chrom st' = chrom st \<and> report_range st' = report_range st
         \<and> empty_site st' = empty_site st \<and> indel_buffer_size st' = 0
         \<and> (indel_buffer_size st \<noteq> 0 \<longrightarrow> site_buffer_size st' = 0)"
proof (cases "indel_buffer_size st = 0")
  case True
  with assms show ?thesis
    by (simp add: process_overlaps_def)
next
  case False
  with assms obtain r sbuf st3 where
    m: "modify_indel_records e st = Inr r"
    and em: "emit_records e (snd r) 0 0
              ((fst r)\<lparr> os := os (fst r) @ ''INDEL_SIZE: ''
                   @ show_nat (indel_buffer_size (fst r)) @ newline,
                 site_buffer := sbuf \<rparr>) = Inr st3"
    and r: "st' = st3\<lparr> indel_buffer_size := 0, site_buffer_size := 0 \<rparr>"
    by (auto simp: process_overlaps_def Let_def split: sum.splits)
  from modify_indel_records_frame [OF m] obtain b where "fst r = st\<lparr> indel_buffer := b \<rparr>"
    by blast
  with emit_records_same [OF em] r show ?thesis
    by (simp add: same_buffers_def)
qed

definition add_site_internal :: "env \<Rightarrow> site_info \<Rightarrow> gvcf_aggregator \<Rightarrow> error + gvcf_aggregator" where
  "add_site_internal e si st0 =
     (let st = st0\<lparr> head_pos := pos si + 1 \<rparr>
      in if indel_buffer_size st \<noteq> 0
         then (if pos si \<ge> indel_end_pos st
               then (case process_overlaps e st of
                       Inl err \<Rightarrow> Inl err
                     | Inr st1 \<Rightarrow> queue_site_record e si st1)
               else Inr (st\<lparr> site_buffer :=
                               (grow site_info_init (site_buffer_size st) (site_buffer st))
                                 [site_buffer_size st := si],
                             site_buffer_size := site_buffer_size st + 1 \<rparr>))
         else queue_site_record e si st)"

lemma add_site_internal_head_pos:
  assumes "add_site_internal e si st = Inr st'"
  shows "head_pos st' = pos si + 1"
proof (cases "indel_buffer_size st \<noteq> 0 \<and> pos si \<ge> indel_end_pos st")
  case True
  with assms obtain st1 where
    p: "process_overlaps e (st\<lparr> head_pos := pos si + 1 \<rparr>) = Inr st1"
    and q: "queue_site_record e si st1 = Inr st'"
    by (auto simp: add_site_internal_def Let_def split: sum.splits)
  from process_overlaps_frame [OF p] queue_site_record_same [OF q] show ?thesis
    by (simp add: same_buffers_def)
next
  case False
  with assms show ?thesis
    by (auto simp: add_site_internal_def Let_def same_buffers_def
          split: if_splits dest!: queue_site_record_same)
qed

text \<open>
  \<^verbatim>\<open>skip_to_pos\<close>: one round of the loop adds an empty site at the head
  position; with no indel pending the block is then extended to the target.
\<close>

function skip_to_pos :: "env \<Rightarrow> int \<Rightarrow> gvcf_aggregator \<Rightarrow> error + gvcf_aggregator" where
  "skip_to_pos e target_pos st =
     (if head_pos st < target_pos
      then (case add_site_internal e (get_empty_site (head_pos st) st) st of
              Inl err \<Rightarrow> Inl err
            | Inr st1 \<Rightarrow>
                if 0 \<noteq> indel_buffer_size st1 then skip_to_pos e target_pos st1
                else if \<not> block_count (block st1) \<noteq> 0 then Inl AssertFailed
                else skip_to_pos e target_pos
                       (st1\<lparr> block := (block st1)\<lparr> block_count :=
                                 block_count (block st1) + (target_pos - head_pos st1) \<rparr>,
                             head_pos := target_pos \<rparr>))
      else Inr st)"
  by pat_completeness auto
termination
proof (relation "measure (\<lambda>(e, t, st). nat (t - head_pos st))")
  show "wf (measure (\<lambda>(e, t, st). nat (t - head_pos st)))"
    by simp
next
  fix e :: env and target_pos :: int and st st1 :: gvcf_aggregator
  assume lt: "head_pos st < target_pos"
    and a: "add_site_internal e (get_empty_site (head_pos st) st) st = Inr st1"
  from add_site_internal_head_pos [OF a] lt
  show "((e, target_pos, st1), (e, target_pos, st)) \<in> measure (\<lambda>(e, t, st). nat (t - head_pos st))"
    by (simp add: get_empty_site_def)
next
  fix e :: env and target_pos :: int and st st1 :: gvcf_aggregator
  assume lt: "head_pos st < target_pos"
  then show "((e, target_pos,
           st1\<lparr> block := (block st1)\<lparr> block_count :=
                     block_count (block st1) + (target_pos - head_pos st1) \<rparr>,
                 head_pos := target_pos \<rparr>), (e, target_pos, st))
         \<in> measure (\<lambda>(e, t, st). nat (t - head_pos st))"
    by simp
qed

declare skip_to_pos.simps [simp del]

definition add_site :: "env \<Rightarrow> site_info \<Rightarrow> gvcf_aggregator \<Rightarrow> error + gvcf_aggregator" where
  "add_site e si st =
     (case skip_to_pos e (pos si) st of
        Inl err \<Rightarrow> Inl err
      | Inr st1 \<Rightarrow> add_site_internal e (add_site_modifiers (opt e) si) st1)"

definition add_indel ::
  "env \<Rightarrow> int \<Rightarrow> indel_key \<Rightarrow> starling_diploid_indel_core \<Rightarrow> starling_indel_report_info
   \<Rightarrow> starling_indel_sample_report_info \<Rightarrow> gvcf_aggregator \<Rightarrow> error + gvcf_aggregator" where
  "add_indel e p k d ri sri st =
     (if is_breakpoint k then Inr st
      else if is_no_indel d then Inr st
      else (case skip_to_pos e p st of
              Inl err \<Rightarrow> Inl err
            | Inr st1 \<Rightarrow>
                (case (if 0 \<noteq> indel_buffer_size st1
                       then (if p \<le> indel_end_pos st1
                             then Inr (st1\<lparr> indel_end_pos := max (indel_end_pos st1) (right_pos k) \<rparr>)
                             else process_overlaps e st1)
                       else Inr st1) of
                   Inl err \<Rightarrow> Inl err
                 | Inr st2 \<Rightarrow>
                     Inr (st2\<lparr> indel_buffer :=
                                 (grow indel_info_init (indel_buffer_size st2) (indel_buffer st2))
                                   [indel_buffer_size st2 := init p k d ri sri],
                               indel_buffer_size := indel_buffer_size st2 + 1,
                               indel_end_pos := right_pos k \<rparr>))))"

text \<open>
  The constructor, for a report range with both ends set, and the destructor.
  Modelled from the spec: the block starts empty (\<^verbatim>\<open>_block(_opt)\<close>).
\<close>

definition block_init :: block_site_record where
  "block_init = \<lparr> block_record = site_info_init, block_count = 0, block_gqx_min = 0 \<rparr>"

definition gvcf_aggregator_init :: "env \<Rightarrow> int \<times> int \<Rightarrow> gvcf_aggregator" where
  "gvcf_aggregator_init e rng =
     \<lparr> report_range = rng, os = [], chrom = [], indel_end_pos = 0,
       indel_buffer_size = 0, site_buffer_size = 0, indel_buffer = [], site_buffer = [],
       block = block_init, head_pos = fst rng,
       empty_site = add_site_modifiers (opt e) site_info_init \<rparr>"

definition gvcf_aggregator_destroy :: "env \<Rightarrow> gvcf_aggregator \<Rightarrow> error + gvcf_aggregator" where
  "gvcf_aggregator_destroy e st =
     (case skip_to_pos e (snd (report_range st) + 1) st of
        Inl err \<Rightarrow> Inl err
      | Inr st1 \<Rightarrow> process_overlaps e st1)"

subsection \<open>Specification functions\<close>

text \<open>
  Following the spec's words on the ploidy vector: a position of the group's
  span is covered by a haplotype when it lies in a match segment of the
  haplotype's alignment path; a delete segment advances the position, an insert
  segment does not. \<open>covered ps off k\<close> says so for the offset \<open>k\<close> and a
  path that starts at the offset \<open>off\<close>; \<open>ref_span\<close> is the number of
  reference positions a path spans.
\<close>

fun covered :: "path_t \<Rightarrow> int \<Rightarrow> int \<Rightarrow> bool" where
  "covered [] off k = False"
| "covered ((t, n) # ps) off k =
     (case t of
        MATCH \<Rightarrow> (off \<le> k \<and> k < off + int n) \<or> covered ps (off + int n) k
      | DELETE \<Rightarrow> covered ps (off + int n) k
      | INSERT \<Rightarrow> covered ps off k)"

fun ref_span :: "path_t \<Rightarrow> nat" where
  "ref_span [] = 0"
| "ref_span ((t, n) # ps) = (case t of INSERT \<Rightarrow> ref_span ps | _ \<Rightarrow> n + ref_span ps)"

text \<open>
  The ploidy the spec describes for a group of two heterozygous indels: at each
  position from the first member's position up to the right bound, the number
  of the two haplotypes whose deletion does not contain the position.
\<close>

definition inside_deletion :: "indel_info \<Rightarrow> int \<Rightarrow> bool" where
  "inside_deletion ii p =
     (indel_pos ii \<le> p \<and> p < indel_pos ii + int (delete_length (ik ii)))"

definition expected_ploidy :: "indel_info \<Rightarrow> indel_info \<Rightarrow> int \<Rightarrow> nat list" where
  "expected_ploidy a b end_pos =
     map (\<lambda>k. (if inside_deletion a (indel_pos a + int k) then 0 else 1)
             + (if inside_deletion b (indel_pos a + int k) then 0 else 1))
       [0..<nat (end_pos - indel_pos a)]"

text \<open>
  What the buffer holds when a group of two indels is finalized by the simple
  overlap path and the buffer's invariants hold: two members in the order of
  their positions, the first one with the empty ploidy vector that \<open>init\<close>
  leaves, keys whose right boundary is the position plus the deleted length,
  and a right bound that is not below the right boundary of a member.
\<close>

definition overlap_group_ok :: "gvcf_aggregator \<Rightarrow> bool" where
  "overlap_group_ok st =
     (indel_buffer_size st = 2 \<and> 2 \<le> length (indel_buffer st)
      \<and> ploidy (imod (indel_buffer st ! 0)) = []
      \<and> indel_pos (indel_buffer st ! 0) \<le> indel_pos (indel_buffer st ! 1)
      \<and> right_pos (ik (indel_buffer st ! 0))
          = indel_pos (indel_buffer st ! 0) + int (delete_length (ik (indel_buffer st ! 0)))
      \<and> right_pos (ik (indel_buffer st ! 1))
          = indel_pos (indel_buffer st ! 1) + int (delete_length (ik (indel_buffer st ! 1)))
      \<and> right_pos (ik (indel_buffer st ! 0)) \<le> indel_end_pos st
      \<and> right_pos (ik (indel_buffer st ! 1)) \<le> indel_end_pos st
      \<and> indel_end_pos st - indel_pos (indel_buffer st ! 0) < 2 ^ 31)"

text \<open>
  The order of emission of a finalized group, following the spec's words: the
  indel records and the buffered site records, each with its index in its
  buffer and its position, are merged by position, an indel before a site of the
  same position. \<open>run_actions\<close> writes the records in a given order:
  an indel through \<open>write_indel_record\<close>, a site through
  \<open>queue_site_record\<close>.
\<close>

datatype emit_action = EmitIndel nat | EmitSite nat


fun run_actions :: "env \<Rightarrow> emit_action list \<Rightarrow> gvcf_aggregator \<Rightarrow> error + gvcf_aggregator" where
  "run_actions e [] st = Inr st"
| "run_actions e (EmitIndel i # acts) st =
     (case write_indel_record e i st of
        Inl err \<Rightarrow> Inl err
      | Inr st1 \<Rightarrow> run_actions e acts st1)"
| "run_actions e (EmitSite j # acts) st =
     (if \<not> j < length (site_buffer st) then Inl OutOfRange
      else (case queue_site_record e (site_buffer st ! j) st of
              Inl err \<Rightarrow> Inl err
            | Inr st1 \<Rightarrow> run_actions e acts st1))"





text \<open>
  The aggregator at the point where \<^verbatim>\<open>process_overlaps\<close> starts to write the
  records of a group: the modified buffers, and the line with the size of the
  group on the stream.
\<close>

definition finalized_group ::
  "gvcf_aggregator \<Rightarrow> indel_info list \<Rightarrow> site_info list \<Rightarrow> gvcf_aggregator" where
  "finalized_group st ibuf sbuf =
     st\<lparr> indel_buffer := ibuf,
         os := os st @ ''INDEL_SIZE: '' @ show_nat (indel_buffer_size st) @ newline,
         site_buffer := sbuf \<rparr>"

text \<open>
  What the buffers hold when a group is finalized by the conflict path and the
  buffer's invariants hold: at least two members, none of them marked as an
  overlap record (\<open>init\<close> clears the mark), the sizes within the vectors, and
  buffered sites that are not before the first member and whose evidence
  counts can be read.
\<close>

definition conflict_group_ok :: "env \<Rightarrow> gvcf_aggregator \<Rightarrow> bool" where
  "conflict_group_ok e st =
     (1 < indel_buffer_size st
      \<and> indel_buffer_size st \<le> length (indel_buffer st)
      \<and> site_buffer_size st \<le> length (site_buffer st)
      \<and> is_simple_indel_overlap (indel_buffer st) (indel_buffer_size st) = Inr False
      \<and> list_all (\<lambda>ii. \<not> is_overlap (imod ii))
           (take (indel_buffer_size st) (indel_buffer st))
      \<and> list_all (\<lambda>si. indel_pos (indel_buffer st ! 0) \<le> pos si
                       \<and> is_site_record_blockable (opt e) si \<noteq> Inl OutOfRange)
           (take (site_buffer_size st) (site_buffer st)))"

text \<open>
  A group of two whose right bound is below the right boundary of its first
  member (see \<open>add_indel\<close>, whose last statement sets the right bound to the
  right boundary of the member just added).
\<close>

definition below_boundary :: "gvcf_aggregator \<Rightarrow> bool" where
  "below_boundary st =
     (indel_buffer_size st = 2 \<and> indel_buffer st \<noteq> []
      \<and> ploidy (imod (indel_buffer st ! 0)) = []
      \<and> right_pos (ik (indel_buffer st ! 0))
          = indel_pos (indel_buffer st ! 0) + int (delete_length (ik (indel_buffer st ! 0)))
      \<and> indel_pos (indel_buffer st ! 0) \<le> indel_end_pos st
      \<and> indel_end_pos st < right_pos (ik (indel_buffer st ! 0))
      \<and> right_pos (ik (indel_buffer st ! 0)) - indel_end_pos st < 2 ^ 32)"

subsection \<open>Sample inputs\<close>

text \<open>
  Concrete options and calls on which the theorems below are evaluated.
\<close>

definition example_opt :: starling_options where
  "example_opt = \<lparr> is_gvcf_min_gqx = True, gvcf_min_gqx = 30, is_gvcf_max_depth = True,
     gvcf_max_depth = 100, gvcf_block_max_nonref = 0.2, gvcf_block_label = ''BLOCKAVG'' \<rparr>"

definition example_site :: site_info where
  "example_site =
     \<lparr> pos = 7, ref = CHR ''A'', n_used_calls = 20, n_unused_calls = 1,
       known_counts = [20, 0, 0, 0],
       dgt = \<lparr> is_snp = False, ref_gt = 0,
               genome = \<lparr> rs_max_gt = 0, rs_max_gt_qphred = 50, snp_qphred = 0 \<rparr>,
               poly = \<lparr> rs_max_gt = 0, rs_max_gt_qphred = 40, snp_qphred = 0 \<rparr> \<rparr>,
       smod = smod_clear \<rparr>"

definition example_env :: env where
  "example_env =
     \<lparr> opt = example_opt,
       ref_base = (\<lambda>p. ''ACGT'' ! nat (p mod 4)),
       N_BASE = 4,
       id_to_base = (\<lambda>b. ''ACGT'' ! b),
       expect2 = (\<lambda>b gt. b = gt),
       digt_is_het = (\<lambda>gt. 4 \<le> gt),
       site_is_qual = (\<lambda>m. \<not> is_unknown m \<and> is_used_covered m \<and> \<not> is_zero_ploidy m \<and> \<not> is_block m),
       site_is_gqx = (\<lambda>m. \<not> is_unknown m \<and> is_used_covered m \<and> \<not> is_zero_ploidy m),
       write_filters = (\<lambda>f. if f = {} then ''PASS''
                            else (if IndelConflict \<in> f then ''IndelConflict;'' else [])
                               @ (if SiteConflict \<in> f then ''SiteConflict;'' else [])
                               @ (if LowGQX \<in> f then ''LowGQX;'' else [])
                               @ (if HighDepth \<in> f then ''HighDepth;'' else [])),
       site_get_gt = (\<lambda>si. case modified_gt (smod si) of
                              NONE \<Rightarrow> (if max_gt (smod si) = ref_gt (dgt si) then ''0/0''
                                       else if 4 \<le> max_gt (smod si) then ''0/1'' else ''1/1'')
                            | UNKNOWN \<Rightarrow> ''.'' | ZERO \<Rightarrow> ''0'' | ONE \<Rightarrow> ''1''),
       indel_get_gt = (\<lambda>ii. if is_overlap (imod ii) then ''1/2''
                              else (case dindel_max_gt (dindel ii) of
                                      HET \<Rightarrow> ''0/1'' | HOM \<Rightarrow> ''1/1'' | NOINDEL \<Rightarrow> ''0/0'')),
       get_ploidy = (\<lambda>ii off. if is_overlap (imod ii)
                               then (if nat off < length (ploidy (imod ii))
                                     then Inr (ploidy (imod ii) ! nat off) else Inl AssertFailed)
                               else Inr (case dindel_max_gt (dindel ii) of
                                           HOM \<Rightarrow> 0 | HET \<Rightarrow> 1 | NOINDEL \<Rightarrow> 2)),
       cigar_str = (\<lambda>p. concat (map (\<lambda>s. show_nat (snd s)
                          @ (case fst s of MATCH \<Rightarrow> ''M'' | INSERT \<Rightarrow> ''I'' | DELETE \<Rightarrow> ''D'')) p)) \<rparr>"

definition example_het_site :: site_info where
  "example_het_site =
     example_site\<lparr> smod := smod_clear\<lparr> is_covered := True, is_used_covered := True,
                                      max_gt := 4, gqx := 70, filters := {LowGQX, HighDepth} \<rparr>,
                    dgt := (dgt example_site)\<lparr> is_snp := True,
                             genome := \<lparr> rs_max_gt = 4, rs_max_gt_qphred = 70, snp_qphred = 80 \<rparr> \<rparr> \<rparr>"

definition example_indel :: indel_info where
  "example_indel =
     \<lparr> indel_pos = 5,
       ik = \<lparr> is_breakpoint = False, right_pos = 8, delete_length = 3, insert_length = 0 \<rparr>,
       dindel = \<lparr> dindel_max_gt = HET, indel_qphred = 60, dindel_max_gt_qphred = 45 \<rparr>,
       iri = \<lparr> vcf_ref_seq = ''ACGT'', vcf_indel_seq = ''A'' \<rparr>,
       isri = \<lparr> depth = 30 \<rparr>,
       imod = imod_clear\<lparr> imod_filters := {HighDepth} \<rparr> \<rparr>"

definition example_state :: gvcf_aggregator where
  "example_state = (gvcf_aggregator_init example_env (0, 20))\<lparr> chrom := ''chr1'' \<rparr>"

definition example_long_deletion :: indel_key where
  "example_long_deletion =
     \<lparr> is_breakpoint = False, right_pos = 15, delete_length = 10, insert_length = 0 \<rparr>"

definition example_short_deletion :: indel_key where
  "example_short_deletion =
     \<lparr> is_breakpoint = False, right_pos = 8, delete_length = 1, insert_length = 0 \<rparr>"


definition example_overlap_state :: gvcf_aggregator where
  "example_overlap_state =
     example_state\<lparr> indel_end_pos := 12, indel_buffer_size := 2,
       indel_buffer :=
         [init 5 \<lparr> is_breakpoint = False, right_pos = 8, delete_length = 3, insert_length = 0 \<rparr>
            \<lparr> dindel_max_gt = HET, indel_qphred = 60, dindel_max_gt_qphred = 45 \<rparr>
            \<lparr> vcf_ref_seq = ''CGTA'', vcf_indel_seq = ''C'' \<rparr> \<lparr> depth = 30 \<rparr>,
          init 7 \<lparr> is_breakpoint = False, right_pos = 12, delete_length = 5, insert_length = 1 \<rparr>
            \<lparr> dindel_max_gt = HET, indel_qphred = 50, dindel_max_gt_qphred = 55 \<rparr>
            \<lparr> vcf_ref_seq = ''TACGTA'', vcf_indel_seq = ''TG'' \<rparr> \<lparr> depth = 28 \<rparr>],
       site_buffer_size := 1, site_buffer := [example_het_site\<lparr> pos := 6 \<rparr>],
       head_pos := 12 \<rparr>"



text \<open>
  Two deletions with matched positions between them. \<^verbatim>\<open>add_indel\<close> does not
  put them into one group; the state is an input for the overlap path alone.
\<close>

definition example_apart_state :: gvcf_aggregator where
  "example_apart_state =
     example_state\<lparr> indel_end_pos := 10, indel_buffer_size := 2,
       indel_buffer :=
         [init 5 \<lparr> is_breakpoint = False, right_pos = 6, delete_length = 1, insert_length = 0 \<rparr>
            \<lparr> dindel_max_gt = HET, indel_qphred = 60, dindel_max_gt_qphred = 45 \<rparr>
            \<lparr> vcf_ref_seq = ''CG'', vcf_indel_seq = ''C'' \<rparr> \<lparr> depth = 30 \<rparr>,
          init 8 \<lparr> is_breakpoint = False, right_pos = 10, delete_length = 2, insert_length = 0 \<rparr>
            \<lparr> dindel_max_gt = HET, indel_qphred = 50, dindel_max_gt_qphred = 55 \<rparr>
            \<lparr> vcf_ref_seq = ''ACG'', vcf_indel_seq = ''A'' \<rparr> \<lparr> depth = 28 \<rparr>],
       head_pos := 10 \<rparr>"

text \<open>
  Two calls of \<^verbatim>\<open>add_indel\<close> on the fresh aggregator: a heterozygous deletion
  of ten bases at position 5 and a heterozygous deletion of one base at
  position 7, inside the first one.
\<close>

definition nested_deletions :: "error + gvcf_aggregator" where
  "nested_deletions =
     (case add_indel example_env 5 example_long_deletion (dindel example_indel)
             (iri example_indel) (isri example_indel) example_state of
        Inl err \<Rightarrow> Inl err
      | Inr st1 \<Rightarrow> add_indel example_env 7 example_short_deletion (dindel example_indel)
                      (iri example_indel) (isri example_indel) st1)"

text \<open>
  The calls that build a group of three indels with a site between them: a
  heterozygous deletion at 5, a homozygous deletion at 6, a site at 6 and a
  heterozygous insertion at 7.
\<close>

definition conflict_calls :: "error + gvcf_aggregator" where
  "conflict_calls =
     (case add_indel example_env 5
             \<lparr> is_breakpoint = False, right_pos = 8, delete_length = 3, insert_length = 0 \<rparr>
             \<lparr> dindel_max_gt = HET, indel_qphred = 60, dindel_max_gt_qphred = 45 \<rparr>
             \<lparr> vcf_ref_seq = ''CGTA'', vcf_indel_seq = ''C'' \<rparr> \<lparr> depth = 30 \<rparr>
             example_state of
        Inl err \<Rightarrow> Inl err
      | Inr st1 \<Rightarrow>
          (case add_indel example_env 6
                  \<lparr> is_breakpoint = False, right_pos = 7, delete_length = 1, insert_length = 0 \<rparr>
                  \<lparr> dindel_max_gt = HOM, indel_qphred = 40, dindel_max_gt_qphred = 35 \<rparr>
                  \<lparr> vcf_ref_seq = ''GT'', vcf_indel_seq = ''G'' \<rparr> \<lparr> depth = 120 \<rparr> st1 of
             Inl err \<Rightarrow> Inl err
           | Inr st2 \<Rightarrow>
               (case add_site example_env (example_het_site\<lparr> pos := 6 \<rparr>) st2 of
                  Inl err \<Rightarrow> Inl err
                | Inr st3 \<Rightarrow>
                    add_indel example_env 7
                      \<lparr> is_breakpoint = False, right_pos = 7, delete_length = 0, insert_length = 2 \<rparr>
                      \<lparr> dindel_max_gt = HET, indel_qphred = 20, dindel_max_gt_qphred = 25 \<rparr>
                      \<lparr> vcf_ref_seq = ''T'', vcf_indel_seq = ''TAA'' \<rparr> \<lparr> depth = 10 \<rparr> st3)))"

section \<open>Properties\<close>

subsection \<open>Helper lemmas\<close>

lemma set_site_filters_keeps:
  "gqx (smod (set_site_filters op si)) = gqx (smod si)"
  "max_gt (smod (set_site_filters op si)) = max_gt (smod si)"
  by (simp_all add: set_site_filters_def set_filter_def Let_def)

lemma modify_sites_nth:
  "modify_sites e c ibuf is sbuf = Inr sbuf' \<Longrightarrow> distinct is \<Longrightarrow>
     length sbuf' = length sbuf
     \<and> (\<forall>i. i \<notin> set is \<longrightarrow> sbuf' ! i = sbuf ! i)
     \<and> (\<forall>i \<in> set is. i < length sbuf \<and> ibuf \<noteq> []
            \<and> 0 \<le> pos (sbuf ! i) - indel_pos (ibuf ! 0)
            \<and> (if c then sbuf' ! i = modify_indel_conflict_site (sbuf ! i)
                else \<exists>pl. get_ploidy e (ibuf ! 0) (pos (sbuf ! i) - indel_pos (ibuf ! 0)) = Inr pl
                      \<and> modify_indel_overlap_site e (ibuf ! 0) pl (sbuf ! i) = Inr (sbuf' ! i)))"
proof (induction "is" arbitrary: sbuf)
  case Nil
  then show ?case by simp
next
  case (Cons i "is")
  from Cons.prems(1) have il: "i < length sbuf" and ne: "ibuf \<noteq> []"
    and off: "0 \<le> pos (sbuf ! i) - indel_pos (ibuf ! 0)"
    by (auto split: if_splits simp: Let_def)
  from Cons.prems(2) have d: "distinct is" and ni: "i \<notin> set is" by auto
  from Cons.prems(1) il ne off obtain si where
    si: "if c then si = modify_indel_conflict_site (sbuf ! i)
         else \<exists>pl. get_ploidy e (ibuf ! 0) (pos (sbuf ! i) - indel_pos (ibuf ! 0)) = Inr pl
                \<and> modify_indel_overlap_site e (ibuf ! 0) pl (sbuf ! i) = Inr si"
    and rest: "modify_sites e c ibuf is (sbuf[i := si]) = Inr sbuf'"
    by (auto split: if_splits sum.splits simp: Let_def)
  from Cons.IH [OF rest d] have
    len: "length sbuf' = length sbuf"
    and keep: "\<forall>k. k \<notin> set is \<longrightarrow> sbuf' ! k = sbuf[i := si] ! k"
    and mod: "\<forall>k \<in> set is. k < length sbuf \<and> ibuf \<noteq> []
            \<and> 0 \<le> pos (sbuf[i := si] ! k) - indel_pos (ibuf ! 0)
            \<and> (if c then sbuf' ! k = modify_indel_conflict_site (sbuf[i := si] ! k)
                else \<exists>pl. get_ploidy e (ibuf ! 0) (pos (sbuf[i := si] ! k) - indel_pos (ibuf ! 0)) = Inr pl
                      \<and> modify_indel_overlap_site e (ibuf ! 0) pl (sbuf[i := si] ! k) = Inr (sbuf' ! k))"
    by simp_all
  from keep ni il have at_i: "sbuf' ! i = si" by simp
  have "\<forall>k \<in> set (i # is). k < length sbuf \<and> ibuf \<noteq> []
            \<and> 0 \<le> pos (sbuf ! k) - indel_pos (ibuf ! 0)
            \<and> (if c then sbuf' ! k = modify_indel_conflict_site (sbuf ! k)
                else \<exists>pl. get_ploidy e (ibuf ! 0) (pos (sbuf ! k) - indel_pos (ibuf ! 0)) = Inr pl
                      \<and> modify_indel_overlap_site e (ibuf ! 0) pl (sbuf ! k) = Inr (sbuf' ! k))"
  proof
    fix k assume k: "k \<in> set (i # is)"
    show "k < length sbuf \<and> ibuf \<noteq> []
            \<and> 0 \<le> pos (sbuf ! k) - indel_pos (ibuf ! 0)
            \<and> (if c then sbuf' ! k = modify_indel_conflict_site (sbuf ! k)
                else \<exists>pl. get_ploidy e (ibuf ! 0) (pos (sbuf ! k) - indel_pos (ibuf ! 0)) = Inr pl
                      \<and> modify_indel_overlap_site e (ibuf ! 0) pl (sbuf ! k) = Inr (sbuf' ! k))"
    proof (cases "k = i")
      case True
      with il ne off si at_i show ?thesis by (auto split: if_splits)
    next
      case False
      with k have kin: "k \<in> set is" by simp
      from False have "sbuf[i := si] ! k = sbuf ! k" by simp
      with mod kin show ?thesis by (auto split: if_splits)
    qed
  qed
  moreover have "\<forall>k. k \<notin> set (i # is) \<longrightarrow> sbuf' ! k = sbuf ! k"
    using keep by auto
  ultimately show ?case using len by blast
qed


lemma modify_sites_overlap_at:
  assumes "modify_sites e False ibuf [0..<n] sbuf = Inr sbuf'" and "i < n"
  shows "\<exists>p. get_ploidy e (ibuf ! 0) (pos (sbuf ! i) - indel_pos (ibuf ! 0)) = Inr p
         \<and> modify_indel_overlap_site e (ibuf ! 0) p (sbuf ! i) = Inr (sbuf' ! i)"
proof -
  from assms(2) have "i \<in> set [0..<n]" by simp
  with modify_sites_nth [of e False ibuf "[0..<n]" sbuf sbuf'] assms
  show ?thesis
    by auto
qed


lemma set_site_filters_fields:
  "dgt (set_site_filters op si) = dgt si"
  "modified_gt (smod (set_site_filters op si)) = modified_gt (smod si)"
  "is_zero_ploidy (smod (set_site_filters op si)) = is_zero_ploidy (smod si)"
  "pos (set_site_filters op si) = pos si"
  by (simp_all add: set_site_filters_def set_filter_def Let_def)

lemma set_site_filters_filters:
  "filters (smod (set_site_filters op si)) =
     filters (smod si)
     \<union> (if is_gvcf_min_gqx op \<and> gqx (smod si) < gvcf_min_gqx op then {LowGQX} else {})
     \<union> (if is_gvcf_max_depth op \<and> n_used_calls si + n_unused_calls si > gvcf_max_depth op
         then {HighDepth} else {})"
  by (simp add: set_site_filters_def set_filter_def Let_def)

lemma modify_indel_overlap_site_one:
  "modify_indel_overlap_site e ii 1 si = Inr si' \<Longrightarrow>
     snp_qphred (genome (dgt si')) = min (snp_qphred (genome (dgt si))) (indel_qphred (dindel ii))
     \<and> gqx (smod si') = min (gqx (smod si)) (dindel_max_gt_qphred (dindel ii))
     \<and> (digt_is_het e (max_gt (smod si)) \<longrightarrow>
          modified_gt (smod si') = UNKNOWN \<and> SiteConflict \<in> filters (smod si'))"
  by (auto simp: modify_indel_overlap_site_def Let_def set_site_filters_keeps
        set_site_filters_fields set_site_filters_filters set_filter_def)

lemma modify_indel_overlap_site_filters:
  "modify_indel_overlap_site e ii pl si = Inr si' \<Longrightarrow>
     filters (smod si') =
       (filters (smod si) \<inter> imod_filters (imod ii))
       \<union> (if pl = 1 \<and> digt_is_het e (max_gt (smod si)) then {SiteConflict} else {})
       \<union> (if is_gvcf_min_gqx (opt e) \<and> gqx (smod si') < gvcf_min_gqx (opt e) then {LowGQX} else {})
       \<union> (if is_gvcf_max_depth (opt e)
              \<and> n_used_calls si + n_unused_calls si > gvcf_max_depth (opt e)
           then {HighDepth} else {})"
  by (auto simp: modify_indel_overlap_site_def Let_def set_site_filters_keeps
        set_site_filters_filters set_filter_def split: if_splits)

lemma example_overlap_site_1:
  "modify_indel_overlap_site example_env example_indel 1 example_het_site =
     Inr (example_het_site\<lparr>
        dgt := (dgt example_het_site)\<lparr> genome := \<lparr> rs_max_gt = 4, rs_max_gt_qphred = 70, snp_qphred = 60 \<rparr> \<rparr>,
        smod := smod_clear\<lparr> is_covered := True, is_used_covered := True, max_gt := 4, gqx := 45,
                  filters := {SiteConflict, HighDepth}, modified_gt := UNKNOWN \<rparr> \<rparr>)"
  by (simp add: modify_indel_overlap_site_def set_site_filters_def set_filter_def Let_def
        example_env_def example_opt_def example_indel_def example_het_site_def example_site_def
        smod_clear_def imod_clear_def insert_commute)

lemma example_modify_sites:
  "modify_sites example_env False [example_indel] [0..<1] [example_het_site]
       = Inr [example_het_site\<lparr>
        dgt := (dgt example_het_site)\<lparr> genome := \<lparr> rs_max_gt = 4, rs_max_gt_qphred = 70, snp_qphred = 60 \<rparr> \<rparr>,
        smod := smod_clear\<lparr> is_covered := True, is_used_covered := True, max_gt := 4, gqx := 45,
                  filters := {SiteConflict, HighDepth}, modified_gt := UNKNOWN \<rparr> \<rparr>]"
proof -
  have pl: "get_ploidy example_env example_indel (pos example_het_site - indel_pos example_indel) = Inr 1"
    by (simp add: example_env_def example_indel_def imod_clear_def)
  have off: "0 \<le> pos example_het_site - indel_pos example_indel"
    by (simp add: example_het_site_def example_site_def example_indel_def)
  show ?thesis
    using pl off example_overlap_site_1 by (simp add: Let_def)
qed

lemma add_match_nth:
  "off + int n \<le> int (length pl) \<Longrightarrow>
     \<exists>pl'. add_match n off pl = Inr (off + int n, pl') \<and> length pl' = length pl
       \<and> (\<forall>k<length pl. pl' ! k = pl ! k + (if off \<le> int k \<and> int k < off + int n then 1 else 0))"
proof (induction n arbitrary: off pl)
  case 0
  then show ?case by simp
next
  case (Suc n)
  show ?case
  proof (cases "off \<ge> 0")
    case True
    with Suc.prems have inr: "nat off < length pl" by linarith
    let ?pl1 = "pl[nat off := pl ! nat off + 1]"
    from Suc.prems have "(off + 1) + int n \<le> int (length ?pl1)" by simp
    from Suc.IH [OF this] obtain pl' where
      r: "add_match n (off + 1) ?pl1 = Inr (off + 1 + int n, pl')"
      and l: "length pl' = length ?pl1"
      and v: "\<forall>k<length ?pl1. pl' ! k = ?pl1 ! k
                + (if off + 1 \<le> int k \<and> int k < off + 1 + int n then 1 else 0)"
      by blast
    have "\<forall>k<length pl. pl' ! k = pl ! k
             + (if off \<le> int k \<and> int k < off + int (Suc n) then 1 else 0)"
    proof (intro allI impI)
      fix k assume k: "k < length pl"
      show "pl' ! k = pl ! k + (if off \<le> int k \<and> int k < off + int (Suc n) then 1 else 0)"
      proof (cases "k = nat off")
        case True
        with v k inr \<open>off \<ge> 0\<close> show ?thesis by simp
      next
        case False
        with \<open>off \<ge> 0\<close> have "int k \<noteq> off" by linarith
        with v k False show ?thesis by (auto simp: nth_list_update)
      qed
    qed
    with r l True inr show ?thesis by (simp add: add.assoc add.commute)
  next
    case False
    from Suc.prems have "(off + 1) + int n \<le> int (length pl)" by simp
    from Suc.IH [OF this] obtain pl' where
      r: "add_match n (off + 1) pl = Inr (off + 1 + int n, pl')"
      and l: "length pl' = length pl"
      and v: "\<forall>k<length pl. pl' ! k = pl ! k
                + (if off + 1 \<le> int k \<and> int k < off + 1 + int n then 1 else 0)"
      by blast
    have "\<forall>k<length pl. pl' ! k = pl ! k
             + (if off \<le> int k \<and> int k < off + int (Suc n) then 1 else 0)"
    proof (intro allI impI)
      fix k assume k: "k < length pl"
      from False have "off \<le> int k \<longleftrightarrow> off + 1 \<le> int k" by linarith
      with v k show "pl' ! k = pl ! k
             + (if off \<le> int k \<and> int k < off + int (Suc n) then 1 else 0)"
        by (simp add: add.assoc add.commute)
    qed
    with r l False show ?thesis by (simp add: add.assoc add.commute)
  qed
qed

lemma covered_ge: "covered ps off k \<Longrightarrow> off \<le> k"
  by (induction ps off k rule: covered.induct) (auto split: align_t.splits)

lemma add_cigar_segments_nth:
  "off + int (ref_span ps) \<le> int (length pl) \<Longrightarrow>
     \<exists>pl'. add_cigar_segments ps off pl = Inr pl' \<and> length pl' = length pl
       \<and> (\<forall>k<length pl. pl' ! k = pl ! k + (if covered ps off (int k) then 1 else 0))"
proof (induction ps arbitrary: off pl)
  case Nil
  then show ?case by simp
next
  case (Cons seg ps)
  obtain t n where seg: "seg = (t, n)" by (cases seg)
  show ?case
  proof (cases t)
    case MATCH
    from Cons.prems seg MATCH have b: "off + int n \<le> int (length pl)" by simp
    from add_match_nth [OF b] obtain pl1 where
      m: "add_match n off pl = Inr (off + int n, pl1)" and l1: "length pl1 = length pl"
      and v1: "\<forall>k<length pl. pl1 ! k = pl ! k
                 + (if off \<le> int k \<and> int k < off + int n then 1 else 0)"
      by blast
    from Cons.prems seg MATCH l1 have "(off + int n) + int (ref_span ps) \<le> int (length pl1)"
      by simp
    from Cons.IH [OF this] obtain pl' where
      r: "add_cigar_segments ps (off + int n) pl1 = Inr pl'" and l: "length pl' = length pl1"
      and v: "\<forall>k<length pl1. pl' ! k = pl1 ! k
                 + (if covered ps (off + int n) (int k) then 1 else 0)"
      by blast
    have "\<forall>k<length pl. pl' ! k = pl ! k + (if covered (seg # ps) off (int k) then 1 else 0)"
    proof (intro allI impI)
      fix k assume k: "k < length pl"
      have "covered ps (off + int n) (int k) \<Longrightarrow> \<not> int k < off + int n"
        using covered_ge by fastforce
      with v v1 k l1 seg MATCH
      show "pl' ! k = pl ! k + (if covered (seg # ps) off (int k) then 1 else 0)"
        by auto
    qed
    with m r l l1 seg MATCH show ?thesis by simp
  next
    case INSERT
    from Cons.prems seg INSERT have "off + int (ref_span ps) \<le> int (length pl)" by simp
    from Cons.IH [OF this] seg INSERT show ?thesis by simp
  next
    case DELETE
    from Cons.prems seg DELETE have "(off + int n) + int (ref_span ps) \<le> int (length pl)"
      by simp
    from Cons.IH [OF this] seg DELETE show ?thesis by simp
  qed
qed

lemma ref_span_hap_cigar:
  "ref_span (get_hap_cigar k lead trail) = lead + delete_length k + trail"
  by (simp add: get_hap_cigar_def)

lemma covered_hap_cigar:
  "covered (get_hap_cigar k lead trail) (- 1) j \<longleftrightarrow>
     (- 1 \<le> j \<and> j < int lead - 1)
     \<or> (int lead - 1 + int (delete_length k) \<le> j
        \<and> j < int lead - 1 + int (delete_length k) + int trail)"
  by (auto simp: get_hap_cigar_def)

lemma add_hap_cigar_to_ploidy:
  assumes "int lead + int (delete_length k) + int trail = int (length pl) + 1"
  shows "\<exists>pl'. add_cigar_to_ploidy (get_hap_cigar k lead trail) pl = Inr pl'
           \<and> length pl' = length pl
           \<and> (\<forall>j<length pl. pl' ! j = pl ! j
                 + (if int j < int lead - 1 \<or> int lead - 1 + int (delete_length k) \<le> int j
                    then 1 else 0))"
proof -
  from assms have "- 1 + int (ref_span (get_hap_cigar k lead trail)) \<le> int (length pl)"
    by (simp add: ref_span_hap_cigar)
  from add_cigar_segments_nth [OF this] obtain pl' where
    r: "add_cigar_segments (get_hap_cigar k lead trail) (- 1) pl = Inr pl'"
    and l: "length pl' = length pl"
    and v: "\<forall>j<length pl. pl' ! j = pl ! j
              + (if covered (get_hap_cigar k lead trail) (- 1) (int j) then 1 else 0)"
    by blast
  have "\<forall>j<length pl. pl' ! j = pl ! j
                 + (if int j < int lead - 1 \<or> int lead - 1 + int (delete_length k) \<le> int j
                    then 1 else 0)"
  proof (intro allI impI)
    fix j assume j: "j < length pl"
    with assms have "int j < int lead - 1 + int (delete_length k) + int trail"
      by linarith
    then have "covered (get_hap_cigar k lead trail) (- 1) (int j) \<longleftrightarrow>
        (int j < int lead - 1 \<or> int lead - 1 + int (delete_length k) \<le> int j)"
      unfolding covered_hap_cigar by auto
    with v j show "pl' ! j = pl ! j
                 + (if int j < int lead - 1 \<or> int lead - 1 + int (delete_length k) \<le> int j
                    then 1 else 0)"
      by simp
  qed
  with r l show ?thesis by (simp add: add_cigar_to_ploidy_def)
qed

lemma to_unsigned_nat: "0 \<le> x \<Longrightarrow> x < 2 ^ 32 \<Longrightarrow> to_unsigned x = nat x"
  by (simp add: to_unsigned_def)

lemma length_get_substring: "length (get_substring e p n) = n"
  by (simp add: get_substring_def)

lemma extend_hap_fields:
  "indel_pos (extend_hap e b en h) = indel_pos h"
  "ik (extend_hap e b en h) = ik h"
  "dindel (extend_hap e b en h) = dindel h"
  "isri (extend_hap e b en h) = isri h"
  "vcf_ref_seq (iri (extend_hap e b en h)) = vcf_ref_seq (iri h)"
  "ploidy (imod (extend_hap e b en h)) = ploidy (imod h)"
  "is_overlap (imod (extend_hap e b en h)) = is_overlap (imod h)"
  "imod_filters (imod (extend_hap e b en h)) = imod_filters (imod h)"
  "imod_gqx (imod (extend_hap e b en h)) = imod_gqx (imod h)"
  by (simp_all add: extend_hap_def Let_def)

lemma extend_hap_cigar:
  assumes "b < indel_pos h" and "indel_pos h - b < 2 ^ 32"
    and "right_pos (ik h) \<le> en" and "en - right_pos (ik h) < 2 ^ 32"
  shows "cigar (imod (extend_hap e b en h)) =
           get_hap_cigar (ik h) (nat (indel_pos h - b)) (nat (en - right_pos (ik h)))"
proof -
  from assms have l: "to_unsigned (indel_pos h - b - 1) = nat (indel_pos h - b - 1)"
    by (simp add: to_unsigned_nat)
  from assms have t: "to_unsigned (en - right_pos (ik h)) = nat (en - right_pos (ik h))"
    by (simp add: to_unsigned_nat)
  from assms have "int (nat (indel_pos h - b - 1)) + 1 = indel_pos h - b"
    by simp
  with assms have l1: "to_unsigned (int (nat (indel_pos h - b - 1)) + 1) = nat (indel_pos h - b)"
    by (simp only: to_unsigned_nat)
  have "cigar (imod (extend_hap e b en h)) =
          get_hap_cigar (ik h) (to_unsigned (int (nat (indel_pos h - b - 1)) + 1))
            (nat (en - right_pos (ik h)))"
    by (simp add: extend_hap_def Let_def l t length_get_substring del: of_nat_nat)
  then show ?thesis
    by (simp only: l1)
qed

lemma reduce_quals_fields:
  "indel_pos (reduce_quals ii other) = indel_pos ii"
  "ik (reduce_quals ii other) = ik ii"
  "iri (reduce_quals ii other) = iri ii"
  "isri (reduce_quals ii other) = isri ii"
  "imod (reduce_quals ii other) = imod ii"
  "dindel_max_gt (dindel (reduce_quals ii other)) = dindel_max_gt (dindel ii)"
  "indel_qphred (dindel (reduce_quals ii other))
     = min (indel_qphred (dindel ii)) (indel_qphred (dindel other))"
  "dindel_max_gt_qphred (dindel (reduce_quals ii other))
     = min (dindel_max_gt_qphred (dindel ii)) (dindel_max_gt_qphred (dindel other))"
  by (simp_all add: reduce_quals_def Let_def)

lemma add_indel_modifiers_fields:
  "indel_pos (add_indel_modifiers op ii) = indel_pos ii"
  "ik (add_indel_modifiers op ii) = ik ii"
  "dindel (add_indel_modifiers op ii) = dindel ii"
  "iri (add_indel_modifiers op ii) = iri ii"
  "isri (add_indel_modifiers op ii) = isri ii"
  "cigar (imod (add_indel_modifiers op ii)) = cigar (imod ii)"
  "ploidy (imod (add_indel_modifiers op ii)) = ploidy (imod ii)"
  "is_overlap (imod (add_indel_modifiers op ii)) = is_overlap (imod ii)"
  "imod_gqx (imod (add_indel_modifiers op ii))
     = min (indel_qphred (dindel ii)) (dindel_max_gt_qphred (dindel ii))"
  "imod_filters (imod (add_indel_modifiers op ii)) =
     imod_filters (imod ii)
     \<union> (if is_gvcf_min_gqx op
            \<and> min (indel_qphred (dindel ii)) (dindel_max_gt_qphred (dindel ii)) < gvcf_min_gqx op
         then {LowGQX} else {})
     \<union> (if is_gvcf_max_depth op \<and> depth (isri ii) > gvcf_max_depth op then {HighDepth} else {})"
  by (simp_all add: add_indel_modifiers_def indel_set_filter_def Let_def)

lemma overlap_hap_0:
  assumes "0 < length (indel_buffer st)"
    and "add_cigar_to_ploidy
           (cigar (imod (extend_hap e (indel_pos (indel_buffer st ! 0) - 1) (indel_end_pos st)
                          (indel_buffer st ! 0))))
           (ploidy (imod (indel_buffer st ! 0))) = Inr v"
  shows "overlap_hap e 0 st =
           Inr (st\<lparr> indel_buffer := (indel_buffer st)
                  [0 := (extend_hap e (indel_pos (indel_buffer st ! 0) - 1) (indel_end_pos st)
                           (indel_buffer st ! 0))
                        \<lparr> imod := (imod (extend_hap e (indel_pos (indel_buffer st ! 0) - 1)
                                     (indel_end_pos st) (indel_buffer st ! 0)))
                                   \<lparr> ploidy := v \<rparr> \<rparr>] \<rparr>)"
  using assms by (simp add: overlap_hap_def Let_def extend_hap_fields)

lemma list_update_first_again:
  "xs[0 := a, Suc 0 := b, 0 := c] = xs[0 := c, Suc 0 := b]"
  by (cases xs) simp_all

lemma overlap_hap_1:
  assumes "1 < length (indel_buffer st)"
    and "add_cigar_to_ploidy
           (cigar (imod (extend_hap e (indel_pos (indel_buffer st ! 0) - 1) (indel_end_pos st)
                          (indel_buffer st ! 1))))
           (ploidy (imod (indel_buffer st ! 0))) = Inr v"
  shows "overlap_hap e 1 st =
           Inr (st\<lparr> indel_buffer := (indel_buffer st)
                  [0 := (reduce_quals (indel_buffer st ! 0) (indel_buffer st ! 1))
                        \<lparr> imod := (imod (indel_buffer st ! 0))\<lparr> ploidy := v \<rparr> \<rparr>,
                   1 := extend_hap e (indel_pos (indel_buffer st ! 0) - 1) (indel_end_pos st)
                          (indel_buffer st ! 1)] \<rparr>)"
proof -
  from assms(1) have l: "indel_buffer st \<noteq> []" by auto
  show ?thesis
    using assms l
    by (simp add: overlap_hap_def Let_def reduce_quals_fields list_update_first_again)
qed

lemma modify_overlap_indel_record_result:
  assumes ok: "overlap_group_ok st"
  shows "\<exists>A B. modify_overlap_indel_record e st
                 = Inr (st\<lparr> indel_buffer := (indel_buffer st)[0 := A, 1 := B] \<rparr>)
           \<and> ploidy (imod A)
               = expected_ploidy (indel_buffer st ! 0) (indel_buffer st ! 1) (indel_end_pos st)
           \<and> is_overlap (imod A)
           \<and> cigar (imod A) = get_hap_cigar (ik (indel_buffer st ! 0)) 1
                 (nat (indel_end_pos st - right_pos (ik (indel_buffer st ! 0))))
           \<and> cigar (imod B) = get_hap_cigar (ik (indel_buffer st ! 1))
                 (nat (indel_pos (indel_buffer st ! 1) - indel_pos (indel_buffer st ! 0)) + 1)
                 (nat (indel_end_pos st - right_pos (ik (indel_buffer st ! 1))))
           \<and> indel_qphred (dindel A)
               = min (indel_qphred (dindel (indel_buffer st ! 0)))
                     (indel_qphred (dindel (indel_buffer st ! 1)))
           \<and> dindel_max_gt_qphred (dindel A)
               = min (dindel_max_gt_qphred (dindel (indel_buffer st ! 0)))
                     (dindel_max_gt_qphred (dindel (indel_buffer st ! 1)))
           \<and> imod_gqx (imod A) = min (indel_qphred (dindel A)) (dindel_max_gt_qphred (dindel A))
           \<and> indel_pos A = indel_pos (indel_buffer st ! 0)
           \<and> indel_pos B = indel_pos (indel_buffer st ! 1)
           \<and> vcf_ref_seq (iri A)
               = get_substring e (indel_pos (indel_buffer st ! 0) - 1)
                   (nat (indel_end_pos st - indel_pos (indel_buffer st ! 0) + 1))
           \<and> (\<exists>v. add_cigar_to_ploidy (cigar (imod A))
                     (replicate (nat (indel_end_pos st - indel_pos (indel_buffer st ! 0))) 0)
                   = Inr v
                 \<and> add_cigar_to_ploidy (cigar (imod B)) v = Inr (ploidy (imod A)))"
proof -
  let ?buf = "indel_buffer st"
  let ?a = "?buf ! 0" and ?b = "?buf ! 1"
  let ?E = "indel_end_pos st"
  let ?p0 = "indel_pos ?a" and ?p1 = "indel_pos ?b"
  let ?n = "nat (?E - ?p0)"
  from ok have size: "indel_buffer_size st = 2" and len: "2 \<le> length ?buf"
    and fresh: "ploidy (imod ?a) = []" and ord: "?p0 \<le> ?p1"
    and ra: "right_pos (ik ?a) = ?p0 + int (delete_length (ik ?a))"
    and rb: "right_pos (ik ?b) = ?p1 + int (delete_length (ik ?b))"
    and ea: "right_pos (ik ?a) \<le> ?E" and eb: "right_pos (ik ?b) \<le> ?E"
    and bound: "?E - ?p0 < 2 ^ 31"
    by (simp_all add: overlap_group_ok_def)
  from len have ne: "?buf \<noteq> []" and l0: "0 < length ?buf" and l1: "1 < length ?buf"
    by auto
  from ra ea have span: "0 \<le> ?E - ?p0" by linarith
  define a0 where "a0 = (?a\<lparr> imod := (imod ?a)\<lparr> is_overlap := True \<rparr> \<rparr>)
       \<lparr> iri := (iri ?a)\<lparr> vcf_ref_seq :=
            get_substring e (?p0 - 1) (to_unsigned (?E - (?p0 - 1))) \<rparr> \<rparr>
       \<lparr> imod := (imod ?a)\<lparr> is_overlap := True, ploidy := replicate ?n 0 \<rparr> \<rparr>"
  have a0f: "indel_pos a0 = ?p0" "ik a0 = ik ?a" "dindel a0 = dindel ?a"
    "ploidy (imod a0) = replicate ?n 0" "is_overlap (imod a0)"
    by (simp_all add: a0_def)
  have "(2::int) ^ 31 < 2 ^ 32" by simp
  with span bound have "to_unsigned (?E - (?p0 - 1)) = nat (?E - ?p0 + 1)"
    by (simp add: to_unsigned_nat algebra_simps)
  then have a0r: "vcf_ref_seq (iri a0) = get_substring e (?p0 - 1) (nat (?E - ?p0 + 1))"
    by (simp add: a0_def)
  define st1 where "st1 = st\<lparr> indel_buffer := ?buf[0 := a0] \<rparr>"
  have st1f: "indel_buffer st1 = ?buf[0 := a0]" "indel_end_pos st1 = ?E"
    "indel_buffer st1 ! 0 = a0" "indel_buffer st1 ! 1 = ?b"
    "length (indel_buffer st1) = length ?buf"
    using l0 by (simp_all add: st1_def)
  have unf: "modify_overlap_indel_record e st =
      (case overlap_hap e 0 st1 of
         Inl err \<Rightarrow> Inl err
       | Inr st2 \<Rightarrow>
           (case overlap_hap e 1 st2 of
              Inl err \<Rightarrow> Inl err
            | Inr st3 \<Rightarrow>
                Inr (st3\<lparr> indel_buffer := (indel_buffer st3)
                       [0 := add_indel_modifiers (opt e) (indel_buffer st3 ! 0)] \<rparr>)))"
    using size ne span fresh
    by (simp add: modify_overlap_indel_record_def Let_def st1_def a0_def resize_def)
  \<comment> \<open>haplotype 0\<close>
  let ?h0 = "extend_hap e (?p0 - 1) ?E a0"
  have c0: "cigar (imod ?h0) = get_hap_cigar (ik ?a) 1 (nat (?E - right_pos (ik ?a)))"
    using extend_hap_cigar [of "?p0 - 1" a0 ?E e] ea span bound ra by (simp add: a0f)
  have "int 1 + int (delete_length (ik ?a)) + int (nat (?E - right_pos (ik ?a)))
          = int (length (replicate ?n (0::nat))) + 1"
    using ra ea span by simp
  from add_hap_cigar_to_ploidy [OF this] obtain v0 where
    f0: "add_cigar_to_ploidy (get_hap_cigar (ik ?a) 1 (nat (?E - right_pos (ik ?a))))
           (replicate ?n 0) = Inr v0"
    and lv0: "length v0 = ?n"
    and v0: "\<forall>j<?n. v0 ! j = (if int (delete_length (ik ?a)) \<le> int j then 1 else 0)"
    by auto
  define a1 where "a1 = ?h0\<lparr> imod := (imod ?h0)\<lparr> ploidy := v0 \<rparr> \<rparr>"
  have h0: "overlap_hap e 0 st1 = Inr (st\<lparr> indel_buffer := ?buf[0 := a1] \<rparr>)"
    using overlap_hap_0 [of st1 e v0] l0 f0 c0
    by (simp add: st1f a0f a1_def) (simp add: st1_def)
  let ?st2 = "st\<lparr> indel_buffer := ?buf[0 := a1] \<rparr>"
  have a1f: "indel_pos a1 = ?p0" "ploidy (imod a1) = v0" "is_overlap (imod a1)"
    "dindel a1 = dindel ?a" "cigar (imod a1) = get_hap_cigar (ik ?a) 1 (nat (?E - right_pos (ik ?a)))"
    by (simp_all add: a1_def extend_hap_fields a0f c0)
  have st2f: "indel_buffer ?st2 ! 0 = a1" "indel_buffer ?st2 ! 1 = ?b"
    "length (indel_buffer ?st2) = length ?buf" "indel_end_pos ?st2 = ?E"
    using l0 by simp_all
  \<comment> \<open>haplotype 1\<close>
  let ?h1 = "extend_hap e (?p0 - 1) ?E ?b"
  have c1: "cigar (imod ?h1) = get_hap_cigar (ik ?b) (nat (?p1 - ?p0) + 1)
              (nat (?E - right_pos (ik ?b)))"
  proof -
    from ord have "nat (?p1 - (?p0 - 1)) = nat (?p1 - ?p0) + 1" by linarith
    moreover have "(2::int) ^ 31 < 2 ^ 32" by simp
    with ord eb rb bound have "?p0 - 1 < ?p1" "?p1 - (?p0 - 1) < 2 ^ 32"
      "?E - right_pos (ik ?b) < 2 ^ 32" by linarith+
    ultimately show ?thesis
      using extend_hap_cigar [of "?p0 - 1" ?b ?E e] eb by simp
  qed
  have "int (nat (?p1 - ?p0) + 1) + int (delete_length (ik ?b))
          + int (nat (?E - right_pos (ik ?b))) = int (length v0) + 1"
    using rb eb ord span lv0 by simp
  from add_hap_cigar_to_ploidy [OF this] obtain v1 where
    f1: "add_cigar_to_ploidy (get_hap_cigar (ik ?b) (nat (?p1 - ?p0) + 1)
            (nat (?E - right_pos (ik ?b)))) v0 = Inr v1"
    and lv1: "length v1 = ?n"
    and v1: "\<forall>j<?n. v1 ! j = v0 ! j
               + (if int j < int (nat (?p1 - ?p0) + 1) - 1
                     \<or> int (nat (?p1 - ?p0) + 1) - 1 + int (delete_length (ik ?b)) \<le> int j
                  then 1 else 0)"
    using lv0 by auto
  define a2 where "a2 = (reduce_quals a1 ?b)\<lparr> imod := (imod a1)\<lparr> ploidy := v1 \<rparr> \<rparr>"
  have h1: "overlap_hap e 1 ?st2 = Inr (st\<lparr> indel_buffer := ?buf[0 := a2, 1 := ?h1] \<rparr>)"
    using overlap_hap_1 [of ?st2 e v1] l1 l0 f1 c1
    by (simp add: a1f a2_def list_update_first_again del: One_nat_def)
  let ?A = "add_indel_modifiers (opt e) a2"
  have res: "modify_overlap_indel_record e st = Inr (st\<lparr> indel_buffer := ?buf[0 := ?A, 1 := ?h1] \<rparr>)"
    using l0 l1
    by (simp add: unf h0 h1 list_update_swap [of 1 0] del: One_nat_def)
  have pl: "ploidy (imod ?A) = expected_ploidy ?a ?b ?E"
  proof (rule nth_equalityI)
    show "length (ploidy (imod ?A)) = length (expected_ploidy ?a ?b ?E)"
      by (simp add: add_indel_modifiers_fields a2_def lv1 expected_ploidy_def)
  next
    fix j assume "j < length (ploidy (imod ?A))"
    then have j: "j < ?n"
      by (simp add: add_indel_modifiers_fields a2_def lv1)
    from ord have "int (nat (?p1 - ?p0) + 1) - 1 = ?p1 - ?p0" by simp
    with v0 v1 j have "v1 ! j = (if int (delete_length (ik ?a)) \<le> int j then 1 else 0)
        + (if int j < ?p1 - ?p0 \<or> ?p1 - ?p0 + int (delete_length (ik ?b)) \<le> int j then 1 else 0)"
      by simp
    moreover have "expected_ploidy ?a ?b ?E ! j =
        (if inside_deletion ?a (?p0 + int j) then 0 else 1)
        + (if inside_deletion ?b (?p0 + int j) then 0 else 1)"
      using j by (simp add: expected_ploidy_def)
    moreover have "inside_deletion ?a (?p0 + int j) \<longleftrightarrow> \<not> int (delete_length (ik ?a)) \<le> int j"
      by (auto simp: inside_deletion_def)
    moreover have "inside_deletion ?b (?p0 + int j) \<longleftrightarrow>
        \<not> (int j < ?p1 - ?p0 \<or> ?p1 - ?p0 + int (delete_length (ik ?b)) \<le> int j)"
      by (auto simp: inside_deletion_def)
    ultimately show "ploidy (imod ?A) ! j = expected_ploidy ?a ?b ?E ! j"
      by (simp add: add_indel_modifiers_fields a2_def)
  qed
  have "is_overlap (imod ?A)"
    "cigar (imod ?A) = get_hap_cigar (ik ?a) 1 (nat (?E - right_pos (ik ?a)))"
    "indel_qphred (dindel ?A) = min (indel_qphred (dindel ?a)) (indel_qphred (dindel ?b))"
    "dindel_max_gt_qphred (dindel ?A)
       = min (dindel_max_gt_qphred (dindel ?a)) (dindel_max_gt_qphred (dindel ?b))"
    "imod_gqx (imod ?A) = min (indel_qphred (dindel ?A)) (dindel_max_gt_qphred (dindel ?A))"
    "indel_pos ?A = ?p0" "indel_pos ?h1 = ?p1"
    by (simp_all add: add_indel_modifiers_fields a2_def reduce_quals_fields a1f extend_hap_fields)
  moreover have "vcf_ref_seq (iri ?A) = get_substring e (?p0 - 1) (nat (?E - ?p0 + 1))"
    by (simp add: add_indel_modifiers_fields a2_def reduce_quals_fields a1_def
          extend_hap_fields a0r)
  moreover have "\<exists>v. add_cigar_to_ploidy (cigar (imod ?A)) (replicate ?n 0) = Inr v
                 \<and> add_cigar_to_ploidy (cigar (imod ?h1)) v = Inr (ploidy (imod ?A))"
    using f0 f1 c1 by (simp add: add_indel_modifiers_fields a2_def a1f)
  ultimately show ?thesis
    using res pl c1 by blast
qed



lemma run_actions_sites_same:
  "run_actions e (map EmitSite js) st = Inr st' \<Longrightarrow> same_buffers st st'"
proof (induction js arbitrary: st)
  case Nil
  then show ?case by (simp add: same_buffers_refl)
next
  case (Cons j js)
  from Cons.prems obtain st1 where q: "queue_site_record e (site_buffer st ! j) st = Inr st1"
    and r: "run_actions e (map EmitSite js) st1 = Inr st'"
    by (auto split: if_splits sum.splits)
  from queue_site_record_same [OF q] Cons.IH [OF r] show ?case
    by (rule same_buffers_trans)
qed

lemma emit_records_sites_only:
  assumes "indel_buffer_size st \<le> i" and "site_buffer_size st \<le> length (site_buffer st)"
  shows "emit_records e c i j st = run_actions e (map EmitSite [j..<site_buffer_size st]) st"
  using assms
proof (induction "site_buffer_size st - j" arbitrary: j st)
  case 0
  then have "\<not> (i < indel_buffer_size st \<or> j < site_buffer_size st)" by simp
  then show ?case
    unfolding emit_records.simps [of e c i j st] by simp
next
  case (Suc d)
  from Suc.hyps(2) have j: "j < site_buffer_size st" by simp
  with Suc.prems have jl: "j < length (site_buffer st)" by simp
  from Suc.prems(1) have ni: "\<not> i < indel_buffer_size st" by simp
  have unf: "emit_records e c i j st =
      (case queue_site_record e (site_buffer st ! j) st of
         Inl err \<Rightarrow> Inl err
       | Inr st1 \<Rightarrow> emit_records e c i (j + 1) st1)"
    unfolding emit_records.simps [of e c i j st] using j jl ni by simp
  have "\<And>st1. queue_site_record e (site_buffer st ! j) st = Inr st1 \<Longrightarrow>
      emit_records e c i (j + 1) st1
        = run_actions e (map EmitSite [j + 1..<site_buffer_size st]) st1"
  proof -
    fix st1 assume q: "queue_site_record e (site_buffer st ! j) st = Inr st1"
    from queue_site_record_same [OF q] have s: "site_buffer_size st1 = site_buffer_size st"
      "indel_buffer_size st1 = indel_buffer_size st" "site_buffer st1 = site_buffer st"
      by (simp_all add: same_buffers_def)
    from Suc.hyps(2) s have "d = site_buffer_size st1 - (j + 1)" by simp
    from Suc.hyps(1) [OF this] Suc.prems s
    show "emit_records e c i (j + 1) st1
        = run_actions e (map EmitSite [j + 1..<site_buffer_size st]) st1"
      by simp
  qed
  then show ?case
    unfolding unf using j jl by (simp add: upt_conv_Cons split: sum.splits)
qed

lemma emit_records_simple:
  assumes n: "0 < indel_buffer_size st" "indel_buffer_size st \<le> length (indel_buffer st)"
    and m: "site_buffer_size st \<le> length (site_buffer st)"
    and ord: "\<forall>j<site_buffer_size st. indel_pos (indel_buffer st ! 0) \<le> pos (site_buffer st ! j)"
  shows "emit_records e False 0 0 st
           = run_actions e (EmitIndel 0 # map EmitSite [0..<site_buffer_size st]) st"
proof -
  from n m ord have c: "0 < indel_buffer_size st
      \<and> (\<not> 0 < site_buffer_size st
          \<or> indel_pos (indel_buffer st ! 0) \<le> pos (site_buffer st ! 0))"
    by auto
  from n m have r: "\<not> (0 < indel_buffer_size st \<and> 0 < site_buffer_size st
      \<and> \<not> (0 < length (indel_buffer st) \<and> 0 < length (site_buffer st)))"
    by auto
  from n have a: "\<not> \<not> (0 < indel_buffer_size st \<or> 0 < site_buffer_size st)"
    by simp
  have unf: "emit_records e False 0 0 st =
      (case write_indel_record e 0 st of
         Inl err \<Rightarrow> Inl err
       | Inr st1 \<Rightarrow> emit_records e False (indel_buffer_size st1) 0 st1)"
    unfolding emit_records.simps [of e False 0 0 st] if_not_P [OF a] if_not_P [OF r] if_P [OF c]
    by (simp cong: sum.case_cong)
  have "\<And>st1. write_indel_record e 0 st = Inr st1 \<Longrightarrow>
      emit_records e False (indel_buffer_size st1) 0 st1
        = run_actions e (map EmitSite [0..<site_buffer_size st]) st1"
  proof -
    fix st1 assume w: "write_indel_record e 0 st = Inr st1"
    from write_indel_record_same [OF w] have s: "site_buffer_size st1 = site_buffer_size st"
      "site_buffer st1 = site_buffer st"
      by (simp_all add: same_buffers_def)
    with m have "site_buffer_size st1 \<le> length (site_buffer st1)" by simp
    from emit_records_sites_only [OF order_refl this, of e False 0] s
    show "emit_records e False (indel_buffer_size st1) 0 st1
        = run_actions e (map EmitSite [0..<site_buffer_size st]) st1"
      by simp
  qed
  then show ?thesis
    unfolding unf by (simp split: sum.splits)
qed








lemma write_indel_record_pair:
  assumes "0 < indel_buffer_size st" and "i + 1 < length (indel_buffer st)"
    and "is_overlap (imod (indel_buffer st ! i))"
  shows "write_indel_record e i st =
           Inr ((write_block_site_record e st)
                  \<lparr> os := os (write_block_site_record e st)
                           @ indel_record_text e (write_block_site_record e st) i (i + 1) \<rparr>)"
proof -
  from write_block_site_record_same [of st e]
  have "indel_buffer (write_block_site_record e st) = indel_buffer st"
    by (simp add: same_buffers_def)
  with assms show ?thesis
    by (simp add: write_indel_record_def Let_def)
qed

lemma indel_record_text_single:
  "indel_record_text e st i i =
     chrom st @ tab @ show_int (indel_pos (indel_buffer st ! i)) @ tab
     @ ''.'' @ tab
     @ vcf_ref_seq (iri (indel_buffer st ! i)) @ tab
     @ vcf_indel_seq (iri (indel_buffer st ! i)) @ tab
     @ show_int (indel_qphred (dindel (indel_buffer st ! i))) @ tab
     @ write_filters e (imod_filters (imod (indel_buffer st ! i))) @ tab
     @ ''CIGAR='' @ cigar_str e (cigar (imod (indel_buffer st ! i))) @ tab
     @ ''GT:GQX'' @ tab
     @ indel_get_gt e (indel_buffer st ! i) @ '':''
     @ show_int (imod_gqx (imod (indel_buffer st ! i))) @ newline"
  by (simp add: indel_record_text_def Let_def)

lemma indel_record_text_pair:
  "indel_record_text e st i (i + 1) =
     chrom st @ tab @ show_int (indel_pos (indel_buffer st ! i)) @ tab
     @ ''.'' @ tab
     @ vcf_ref_seq (iri (indel_buffer st ! i)) @ tab
     @ vcf_indel_seq (iri (indel_buffer st ! i)) @ '',''
     @ vcf_indel_seq (iri (indel_buffer st ! (i + 1))) @ tab
     @ show_int (indel_qphred (dindel (indel_buffer st ! i))) @ tab
     @ write_filters e (imod_filters (imod (indel_buffer st ! i))) @ tab
     @ ''CIGAR='' @ cigar_str e (cigar (imod (indel_buffer st ! i))) @ '',''
     @ cigar_str e (cigar (imod (indel_buffer st ! (i + 1)))) @ tab
     @ ''GT:GQX'' @ tab
     @ indel_get_gt e (indel_buffer st ! i) @ '':''
     @ show_int (imod_gqx (imod (indel_buffer st ! i))) @ newline"
proof -
  have "[i..<i + 1 + 1] = [i, i + 1]"
    by (simp add: upt_conv_Cons)
  then show ?thesis
    by (simp add: indel_record_text_def Let_def del: upt_Suc)
qed







lemma modify_indel_overlap_site_pos:
  "modify_indel_overlap_site e ii pl si = Inr si' \<Longrightarrow> pos si' = pos si"
  by (auto simp: modify_indel_overlap_site_def Let_def set_site_filters_fields split: if_splits)

lemma process_overlaps_unfold:
  assumes "indel_buffer_size st \<noteq> 0"
    and "modify_indel_records e st = Inr (st\<lparr> indel_buffer := ibuf \<rparr>, c)"
    and "modify_sites e c ibuf [0..<site_buffer_size st] (site_buffer st) = Inr sbuf"
  shows "process_overlaps e st =
           (case emit_records e c 0 0 (finalized_group st ibuf sbuf) of
              Inl err \<Rightarrow> Inl err
            | Inr st3 \<Rightarrow> Inr (st3\<lparr> indel_buffer_size := 0, site_buffer_size := 0 \<rparr>))"
  using assms by (simp add: process_overlaps_def Let_def finalized_group_def)

lemma finalized_group_fields:
  "indel_buffer_size (finalized_group st ibuf sbuf) = indel_buffer_size st"
  "site_buffer_size (finalized_group st ibuf sbuf) = site_buffer_size st"
  "indel_buffer (finalized_group st ibuf sbuf) = ibuf"
  "site_buffer (finalized_group st ibuf sbuf) = sbuf"
  "chrom (finalized_group st ibuf sbuf) = chrom st"
  "os (finalized_group st ibuf sbuf)
     = os st @ ''INDEL_SIZE: '' @ show_nat (indel_buffer_size st) @ newline"
  by (simp_all add: finalized_group_def)

lemma add_match_out_of_range:
  "0 < n \<Longrightarrow> 0 \<le> off \<Longrightarrow> \<not> nat off < length pl \<Longrightarrow> add_match n off pl = Inl OutOfRange"
  by (cases n) simp_all

lemma modify_overlap_below_boundary:
  assumes size: "indel_buffer_size st = 2" and ne: "indel_buffer st \<noteq> []"
    and fresh: "ploidy (imod (indel_buffer st ! 0)) = []"
    and ra: "right_pos (ik (indel_buffer st ! 0))
               = indel_pos (indel_buffer st ! 0) + int (delete_length (ik (indel_buffer st ! 0)))"
    and lo: "indel_pos (indel_buffer st ! 0) \<le> indel_end_pos st"
    and below: "indel_end_pos st < right_pos (ik (indel_buffer st ! 0))"
    and bound: "right_pos (ik (indel_buffer st ! 0)) - indel_end_pos st < 2 ^ 32"
  shows "modify_overlap_indel_record e st = Inl OutOfRange"
proof -
  let ?a = "indel_buffer st ! 0"
  let ?E = "indel_end_pos st" and ?p0 = "indel_pos ?a"
  let ?n = "nat (?E - ?p0)"
  let ?d = "delete_length (ik ?a)"
  define a0 where "a0 = (?a\<lparr> imod := (imod ?a)\<lparr> is_overlap := True \<rparr> \<rparr>)
       \<lparr> iri := (iri ?a)\<lparr> vcf_ref_seq :=
            get_substring e (?p0 - 1) (to_unsigned (?E - (?p0 - 1))) \<rparr> \<rparr>
       \<lparr> imod := (imod ?a)\<lparr> is_overlap := True, ploidy := replicate ?n 0 \<rparr> \<rparr>"
  have a0f: "indel_pos a0 = ?p0" "ik a0 = ik ?a" "ploidy (imod a0) = replicate ?n 0"
    by (simp_all add: a0_def)
  define st1 where "st1 = st\<lparr> indel_buffer := (indel_buffer st)[0 := a0] \<rparr>"
  from ne have l0: "0 < length (indel_buffer st)" by simp
  have st1f: "indel_end_pos st1 = ?E" "indel_buffer st1 ! 0 = a0"
    "0 < length (indel_buffer st1)"
    using l0 by (simp_all add: st1_def)
  have unf: "modify_overlap_indel_record e st =
      (case overlap_hap e 0 st1 of
         Inl err \<Rightarrow> Inl err
       | Inr st2 \<Rightarrow>
           (case overlap_hap e 1 st2 of
              Inl err \<Rightarrow> Inl err
            | Inr st3 \<Rightarrow>
                Inr (st3\<lparr> indel_buffer := (indel_buffer st3)
                       [0 := add_indel_modifiers (opt e) (indel_buffer st3 ! 0)] \<rparr>)))"
    using size ne lo fresh
    by (simp add: modify_overlap_indel_record_def Let_def st1_def a0_def resize_def)
  define trail where "trail = to_unsigned (?E - right_pos (ik ?a))"
  from below bound
  have "(?E - right_pos (ik ?a) + 2 ^ 32) mod 2 ^ 32 = ?E - right_pos (ik ?a) + 2 ^ 32"
    by (intro mod_pos_pos_trivial) simp_all
  then have "(?E - right_pos (ik ?a)) mod 2 ^ 32 = ?E - right_pos (ik ?a) + 2 ^ 32"
    by simp
  with bound have tpos: "0 < trail"
    by (simp add: trail_def to_unsigned_def)
  from ra below lo have dpos: "?d \<noteq> 0" and dn: "\<not> nat (int ?d) < ?n"
    by auto
  have cig: "cigar (imod (extend_hap e (?p0 - 1) ?E a0)) = get_hap_cigar (ik ?a) 1 trail"
    by (simp add: extend_hap_def Let_def a0f length_get_substring trail_def to_unsigned_def)
  have "add_cigar_to_ploidy (get_hap_cigar (ik ?a) 1 trail) (replicate ?n 0) = Inl OutOfRange"
    using tpos dpos dn
    by (simp add: add_cigar_to_ploidy_def get_hap_cigar_def add_match_out_of_range)
  with cig have "overlap_hap e 0 st1 = Inl OutOfRange"
    using st1f by (simp add: overlap_hap_def Let_def a0f extend_hap_fields)
  with unf show ?thesis
    by simp
qed

lemma modify_overlap_below:
  "below_boundary st \<Longrightarrow> modify_overlap_indel_record e st = Inl OutOfRange"
  unfolding below_boundary_def
  by (elim conjE, rule modify_overlap_below_boundary)

lemma process_overlaps_below:
  assumes "below_boundary st"
    and "is_simple_indel_overlap (indel_buffer st) (indel_buffer_size st) = Inr True"
  shows "process_overlaps e st = Inl OutOfRange"
proof -
  from assms(1) have "indel_buffer_size st = 2"
    by (simp add: below_boundary_def)
  with modify_overlap_below [OF assms(1), of e] assms(2) show ?thesis
    by (simp add: process_overlaps_def modify_indel_records_def)
qed

lemma below_boundary_head_pos:
  "below_boundary (st\<lparr> head_pos := p \<rparr>) = below_boundary st"
  by (simp add: below_boundary_def)

lemma nested_deletions_state:
  obtains st2 where "nested_deletions = Inr st2" and "below_boundary st2"
    and "is_simple_indel_overlap (indel_buffer st2) (indel_buffer_size st2) = Inr True"
proof -
  have c: "case nested_deletions of Inl err \<Rightarrow> False
        | Inr st2 \<Rightarrow> below_boundary st2
            \<and> is_simple_indel_overlap (indel_buffer st2) (indel_buffer_size st2) = Inr True"
    by code_simp
  show thesis
  proof (cases nested_deletions)
    case (Inl err)
    from c show thesis
      unfolding Inl by simp
  next
    case (Inr st2)
    from c have "below_boundary st2"
      "is_simple_indel_overlap (indel_buffer st2) (indel_buffer_size st2) = Inr True"
      unfolding Inr by simp_all
    with Inr show thesis
      by (rule that)
  qed
qed

lemma nested_deletions_next_site:
  assumes n: "nested_deletions = Inr st2"
  obtains st3 where "head_pos st2 < snd (report_range st2) + 1"
    and "add_site_internal example_env (get_empty_site (head_pos st2) st2) st2 = Inr st3"
    and "indel_buffer_size st3 \<noteq> 0" and "head_pos st3 = indel_end_pos st3"
    and "head_pos st3 < snd (report_range st2) + 1"
    and "below_boundary st3"
    and "is_simple_indel_overlap (indel_buffer st3) (indel_buffer_size st3) = Inr True"
proof -
  have "case nested_deletions of Inl err \<Rightarrow> False
        | Inr st2 \<Rightarrow> head_pos st2 < snd (report_range st2) + 1
            \<and> (case add_site_internal example_env (get_empty_site (head_pos st2) st2) st2 of
                 Inl err \<Rightarrow> False
               | Inr st3 \<Rightarrow> indel_buffer_size st3 \<noteq> 0 \<and> head_pos st3 = indel_end_pos st3
                   \<and> head_pos st3 < snd (report_range st2) + 1
                   \<and> below_boundary st3
                   \<and> is_simple_indel_overlap (indel_buffer st3) (indel_buffer_size st3) = Inr True)"
    by code_simp
  then have c: "head_pos st2 < snd (report_range st2) + 1
            \<and> (case add_site_internal example_env (get_empty_site (head_pos st2) st2) st2 of
                 Inl err \<Rightarrow> False
               | Inr st3 \<Rightarrow> indel_buffer_size st3 \<noteq> 0 \<and> head_pos st3 = indel_end_pos st3
                   \<and> head_pos st3 < snd (report_range st2) + 1
                   \<and> below_boundary st3
                   \<and> is_simple_indel_overlap (indel_buffer st3) (indel_buffer_size st3) = Inr True)"
    unfolding n by simp
  then show thesis
    by (cases "add_site_internal example_env (get_empty_site (head_pos st2) st2) st2")
       (simp_all add: that)
qed

text \<open>
  C1 fails on the code: the destructor advances the cursor and finalizes the
  pending indel group, and never flushes the block. On a fresh aggregator for
  the range 0 to 20 nothing at all is written and a block of 21 positions is
  left; after one heterozygous deletion at position 5 the group is written and
  the block that starts at position 5, with 16 positions, is left.
\<close>

theorem destructor_leaves_block_open:
  "(case gvcf_aggregator_destroy example_env example_state of
      Inl err \<Rightarrow> False
    | Inr st \<Rightarrow> os st = [] \<and> block_count (block st) = 21 \<and> indel_buffer_size st = 0)
   \<and> (case add_indel example_env 5 (ik example_indel) (dindel example_indel)
              (iri example_indel) (isri example_indel) example_state of
        Inl err \<Rightarrow> False
      | Inr st1 \<Rightarrow>
          (case gvcf_aggregator_destroy example_env st1 of
             Inl err \<Rightarrow> False
           | Inr st2 \<Rightarrow>
               os st2 = ''INDEL_SIZE: 1'' @ newline
                  @ ''chr1'' @ tab @ ''1'' @ tab @ ''.'' @ tab @ ''N'' @ tab @ ''.'' @ tab @ ''.'' @ tab @ ''LowGQX;'' @ tab @ ''END=5;BLOCKAVG'' @ tab @ ''GT:GQX'' @ tab @ ''0/0;.'' @ newline
                  @ ''chr1'' @ tab @ ''5'' @ tab @ ''.'' @ tab @ ''ACGT'' @ tab @ ''A'' @ tab @ ''60'' @ tab @ ''PASS'' @ tab @ ''CIGAR=1M3D'' @ tab @ ''GT:GQX'' @ tab @ ''0/1:45'' @ newline
               \<and> pos (block_record (block st2)) = 5 \<and> block_count (block st2) = 16))"
  by code_simp

text \<open>
  C2 fails on the code: \<^verbatim>\<open>queue_site_record\<close> does not return after it has
  written a site that is not blockable, and joins it into the block. The site
  at position 7 (printed as 8) is written as its own record and is then the
  first member of a block, which the next flush writes as a second record of
  the same position.
\<close>

theorem queue_site_record_joins_unblockable_site:
  "is_site_record_blockable (opt example_env) example_het_site = Inr False
   \<and> (case queue_site_record example_env example_het_site example_state of
        Inl err \<Rightarrow> False
      | Inr st \<Rightarrow>
          os st = ''chr1'' @ tab @ ''8'' @ tab @ ''.'' @ tab @ ''A'' @ tab @ ''.'' @ tab @ ''80'' @ tab @ ''LowGQX;HighDepth;'' @ tab @ ''.'' @ tab @ ''GT:GQX'' @ tab @ ''0/1;70'' @ newline
          \<and> block_count (block st) = 1
          \<and> block_record (block st)
              = example_het_site\<lparr> smod := (smod example_het_site)\<lparr> is_block := True \<rparr> \<rparr>
          \<and> os (write_block_site_record example_env st) =
              ''chr1'' @ tab @ ''8'' @ tab @ ''.'' @ tab @ ''A'' @ tab @ ''.'' @ tab @ ''80'' @ tab @ ''LowGQX;HighDepth;'' @ tab @ ''.'' @ tab @ ''GT:GQX'' @ tab @ ''0/1;70'' @ newline
              @ ''chr1'' @ tab @ ''8'' @ tab @ ''.'' @ tab @ ''A'' @ tab @ ''.'' @ tab @ ''.'' @ tab @ ''LowGQX;HighDepth;'' @ tab @ ''END=8;BLOCKAVG'' @ tab @ ''GT:GQX'' @ tab @ ''0/1;70'' @ newline)"
  by code_simp

text \<open>
  C3 fails on the code: the last statement of \<^verbatim>\<open>add_indel\<close> sets the right
  bound to the right boundary of the call just added, also when the group was
  extended. After a deletion that ends at 15 and an overlapping one that ends
  at 8 the right bound is 8, below the boundary of the first member.
\<close>

theorem add_indel_overwrites_right_bound:
  "(case add_indel example_env 5 example_long_deletion (dindel example_indel)
           (iri example_indel) (isri example_indel) example_state of
      Inl err \<Rightarrow> False
    | Inr st1 \<Rightarrow>
        indel_end_pos st1 = 15
        \<and> (case add_indel example_env 7 example_short_deletion (dindel example_indel)
                   (iri example_indel) (isri example_indel) st1 of
             Inl err \<Rightarrow> False
           | Inr st2 \<Rightarrow>
               indel_buffer_size st2 = 2
               \<and> map (\<lambda>i. right_pos (ik i)) (take (indel_buffer_size st2) (indel_buffer st2))
                   = [15, 8]
               \<and> indel_end_pos st2 = 8))"
  by code_simp

text \<open>
  The state that the two calls above leave does not satisfy the invariants of
  the buffer that the simple overlap path relies on: its right bound is below
  the right boundary of its first member.
\<close>

lemma nested_deletions_break_invariant:
  "(case add_indel example_env 5 example_long_deletion (dindel example_indel)
           (iri example_indel) (isri example_indel) example_state of
      Inl err \<Rightarrow> False
    | Inr st1 \<Rightarrow>
        (case add_indel example_env 7 example_short_deletion (dindel example_indel)
                (iri example_indel) (isri example_indel) st1 of
           Inl err \<Rightarrow> False
         | Inr st2 \<Rightarrow>
             \<not> overlap_group_ok st2
             \<and> indel_end_pos st2 < right_pos (ik (indel_buffer st2 ! 0))))"
  by code_simp

text \<open>
  C4 fails on the code. The sample field of a site record is the genotype, a
  semicolon and the quality, for every site; and \<^verbatim>\<open>process_overlaps\<close> writes a
  line that is no record, \<open>INDEL_SIZE: \<close> and the size of the group, before the
  records of the group.
\<close>

theorem site_sample_semicolon_and_debug_line:
  "(\<exists>fields. site_record_text e st si =
              fields @ ''GT:GQX'' @ tab @ site_get_gt e si @ '';''
              @ (if site_is_gqx e (smod si)
                 then (if is_block (smod si) then show_int (block_gqx_min (block st))
                       else show_int (gqx (smod si)))
                 else ''.'')
              @ newline)
   \<and> site_record_text example_env example_state example_het_site =
       ''chr1'' @ tab @ ''8'' @ tab @ ''.'' @ tab @ ''A'' @ tab @ ''.'' @ tab @ ''80'' @ tab @ ''LowGQX;HighDepth;'' @ tab @ ''.'' @ tab @ ''GT:GQX'' @ tab @ ''0/1;70'' @ newline
   \<and> (case add_indel example_env 5 (ik example_indel) (dindel example_indel)
              (iri example_indel) (isri example_indel) example_state of
        Inl err \<Rightarrow> False
      | Inr st1 \<Rightarrow>
          (case process_overlaps example_env st1 of
             Inl err \<Rightarrow> False
           | Inr st2 \<Rightarrow>
               os st2 = ''INDEL_SIZE: 1'' @ newline
                  @ ''chr1'' @ tab @ ''1'' @ tab @ ''.'' @ tab @ ''N'' @ tab @ ''.'' @ tab @ ''.'' @ tab @ ''LowGQX;'' @ tab @ ''END=5;BLOCKAVG'' @ tab @ ''GT:GQX'' @ tab @ ''0/0;.'' @ newline
                  @ ''chr1'' @ tab @ ''5'' @ tab @ ''.'' @ tab @ ''ACGT'' @ tab @ ''A'' @ tab @ ''60'' @ tab @ ''PASS'' @ tab @ ''CIGAR=1M3D'' @ tab @ ''GT:GQX'' @ tab @ ''0/1:45'' @ newline))"
proof (intro conjI)
  show "\<exists>fields. site_record_text e st si =
              fields @ ''GT:GQX'' @ tab @ site_get_gt e si @ '';''
              @ (if site_is_gqx e (smod si)
                 then (if is_block (smod si) then show_int (block_gqx_min (block st))
                       else show_int (gqx (smod si)))
                 else ''.'')
              @ newline"
    unfolding site_record_text_def append_assoc [symmetric] by (rule exI) (rule refl)
  show "site_record_text example_env example_state example_het_site =
       ''chr1'' @ tab @ ''8'' @ tab @ ''.'' @ tab @ ''A'' @ tab @ ''.'' @ tab @ ''80'' @ tab @ ''LowGQX;HighDepth;'' @ tab @ ''.'' @ tab @ ''GT:GQX'' @ tab @ ''0/1;70'' @ newline"
    by code_simp
  show "case add_indel example_env 5 (ik example_indel) (dindel example_indel)
              (iri example_indel) (isri example_indel) example_state of
        Inl err \<Rightarrow> False
      | Inr st1 \<Rightarrow>
          (case process_overlaps example_env st1 of
             Inl err \<Rightarrow> False
           | Inr st2 \<Rightarrow>
               os st2 = ''INDEL_SIZE: 1'' @ newline
                  @ ''chr1'' @ tab @ ''1'' @ tab @ ''.'' @ tab @ ''N'' @ tab @ ''.'' @ tab @ ''.'' @ tab @ ''LowGQX;'' @ tab @ ''END=5;BLOCKAVG'' @ tab @ ''GT:GQX'' @ tab @ ''0/0;.'' @ newline
                  @ ''chr1'' @ tab @ ''5'' @ tab @ ''.'' @ tab @ ''ACGT'' @ tab @ ''A'' @ tab @ ''60'' @ tab @ ''PASS'' @ tab @ ''CIGAR=1M3D'' @ tab @ ''GT:GQX'' @ tab @ ''0/1:45'' @ newline)"
    by code_simp
qed

text \<open>
  C5 fails on the code for a group of two heterozygous indels whose right bound
  \<^verbatim>\<open>add_indel\<close> has set below the right boundary of the first member (its last
  statement overwrites the maximum taken before). After a heterozygous deletion of ten bases at 5 and a
  heterozygous deletion of one base at 7, the buffer holds two heterozygous
  members and the right bound is 8. Finalizing this group writes no combined
  record: the alignment path of the first member gets a trailing match of the
  wrapped-around length of \<open>8 - 15\<close>, and the fold of that path indexes the
  ploidy vector past its end. The destructor called in this state ends in the
  same access.
\<close>

theorem nested_overlap_no_combined_record:
  "(case nested_deletions of
      Inl err \<Rightarrow> False
    | Inr st2 \<Rightarrow>
        indel_buffer_size st2 = 2
        \<and> is_het_indel (dindel (indel_buffer st2 ! 0))
        \<and> is_het_indel (dindel (indel_buffer st2 ! 1))
        \<and> process_overlaps example_env st2 = Inl OutOfRange
        \<and> gvcf_aggregator_destroy example_env st2 = Inl OutOfRange)"
proof -
  have pre: "case nested_deletions of
      Inl err \<Rightarrow> False
    | Inr st2 \<Rightarrow>
        indel_buffer_size st2 = 2
        \<and> is_het_indel (dindel (indel_buffer st2 ! 0))
        \<and> is_het_indel (dindel (indel_buffer st2 ! 1))"
    by code_simp
  obtain st2 where n: "nested_deletions = Inr st2" and b2: "below_boundary st2"
    and i2: "is_simple_indel_overlap (indel_buffer st2) (indel_buffer_size st2) = Inr True"
    by (rule nested_deletions_state)
  from n obtain st3 where h2: "head_pos st2 < snd (report_range st2) + 1"
    and a: "add_site_internal example_env (get_empty_site (head_pos st2) st2) st2 = Inr st3"
    and s3: "indel_buffer_size st3 \<noteq> 0" and h3: "head_pos st3 = indel_end_pos st3"
    and h3': "head_pos st3 < snd (report_range st2) + 1"
    and b3: "below_boundary st3"
    and i3: "is_simple_indel_overlap (indel_buffer st3) (indel_buffer_size st3) = Inr True"
    by (rule nested_deletions_next_site)
  from b2 i2 have p: "process_overlaps example_env st2 = Inl OutOfRange"
    by (rule process_overlaps_below)
  from b3 i3 have "process_overlaps example_env (st3\<lparr> head_pos := head_pos st3 + 1 \<rparr>) = Inl OutOfRange"
    by (intro process_overlaps_below) (simp_all add: below_boundary_head_pos)
  with s3 h3 have a3: "add_site_internal example_env (get_empty_site (head_pos st3) st3) st3
      = Inl OutOfRange"
    by (simp add: add_site_internal_def get_empty_site_def Let_def)
  from h3' a3 have "skip_to_pos example_env (snd (report_range st2) + 1) st3 = Inl OutOfRange"
    by (simp add: skip_to_pos.simps [of _ _ st3])
  with h2 a s3 have "skip_to_pos example_env (snd (report_range st2) + 1) st2 = Inl OutOfRange"
    by (simp add: skip_to_pos.simps [of _ _ st2])
  then have d: "gvcf_aggregator_destroy example_env st2 = Inl OutOfRange"
    by (simp add: gvcf_aggregator_destroy_def)
  from pre p d show ?thesis
    unfolding n by simp
qed

text \<open>
  Where the buffer's invariants hold, among them a right bound that is not below
  the right boundary of a member, a group of two heterozygous indels is
  finalized by the simple overlap path. The first record gets the minimum of
  the two indel qualities and the minimum of the two genotype qualities, and
  its GQX is the smaller of these two minima; its reference sequence runs from
  the base before the first member to the right bound. Whenever the loop over the
  buffered sites returns, the records of the group are written by one call of
  \<open>write_indel_record\<close>, for the first record, followed by the buffered
  sites in their order; that call writes one line whose ALT and CIGAR fields
  hold the sequences and the alignment paths of both members, joined by a
  comma, and whose QUAL field is the reduced indel quality.
\<close>

theorem simple_overlap_one_combined_record:
  assumes ok: "overlap_group_ok st"
    and het: "is_het_indel (dindel (indel_buffer st ! 0))"
             "is_het_indel (dindel (indel_buffer st ! 1))"
    and sl: "site_buffer_size st \<le> length (site_buffer st)"
  shows "\<exists>A B.
      modify_indel_records e st
        = Inr (st\<lparr> indel_buffer := (indel_buffer st)[0 := A, 1 := B] \<rparr>, False)
      \<and> is_overlap (imod A)
      \<and> indel_qphred (dindel A)
          = min (indel_qphred (dindel (indel_buffer st ! 0)))
                (indel_qphred (dindel (indel_buffer st ! 1)))
      \<and> dindel_max_gt_qphred (dindel A)
          = min (dindel_max_gt_qphred (dindel (indel_buffer st ! 0)))
                (dindel_max_gt_qphred (dindel (indel_buffer st ! 1)))
      \<and> imod_gqx (imod A) = min (indel_qphred (dindel A)) (dindel_max_gt_qphred (dindel A))
      \<and> vcf_ref_seq (iri A)
          = get_substring e (indel_pos (indel_buffer st ! 0) - 1)
              (nat (indel_end_pos st - indel_pos (indel_buffer st ! 0) + 1))
      \<and> (\<forall>sbuf. modify_sites e False ((indel_buffer st)[0 := A, 1 := B])
                   [0..<site_buffer_size st] (site_buffer st) = Inr sbuf \<longrightarrow>
            process_overlaps e st =
              (case run_actions e (EmitIndel 0 # map EmitSite [0..<site_buffer_size st])
                      (finalized_group st ((indel_buffer st)[0 := A, 1 := B]) sbuf) of
                 Inl err \<Rightarrow> Inl err
               | Inr st3 \<Rightarrow> Inr (st3\<lparr> indel_buffer_size := 0, site_buffer_size := 0 \<rparr>)))
      \<and> (\<forall>s. indel_buffer s = (indel_buffer st)[0 := A, 1 := B] \<and> 0 < indel_buffer_size s \<longrightarrow>
            write_indel_record e 0 s =
              Inr ((write_block_site_record e s)
                     \<lparr> os := os (write_block_site_record e s)
                          @ chrom s @ tab @ show_int (indel_pos A) @ tab
                          @ ''.'' @ tab
                          @ vcf_ref_seq (iri A) @ tab
                          @ vcf_indel_seq (iri A) @ '','' @ vcf_indel_seq (iri B) @ tab
                          @ show_int (indel_qphred (dindel A)) @ tab
                          @ write_filters e (imod_filters (imod A)) @ tab
                          @ ''CIGAR='' @ cigar_str e (cigar (imod A)) @ '',''
                          @ cigar_str e (cigar (imod B)) @ tab
                          @ ''GT:GQX'' @ tab
                          @ indel_get_gt e A @ '':'' @ show_int (imod_gqx (imod A))
                          @ newline \<rparr>))"
proof -
  let ?buf = "indel_buffer st"
  from ok have size: "indel_buffer_size st = 2" and len: "2 \<le> length ?buf"
    by (simp_all add: overlap_group_ok_def)
  from len have l0: "0 < length ?buf" and l1: "1 < length ?buf" by linarith+
  from modify_overlap_indel_record_result [OF ok, of e] obtain A B where
    r: "modify_overlap_indel_record e st = Inr (st\<lparr> indel_buffer := ?buf[0 := A, 1 := B] \<rparr>)"
    and ov: "is_overlap (imod A)"
    and q1: "indel_qphred (dindel A)
          = min (indel_qphred (dindel (?buf ! 0))) (indel_qphred (dindel (?buf ! 1)))"
    and q2: "dindel_max_gt_qphred (dindel A)
          = min (dindel_max_gt_qphred (dindel (?buf ! 0))) (dindel_max_gt_qphred (dindel (?buf ! 1)))"
    and q3: "imod_gqx (imod A) = min (indel_qphred (dindel A)) (dindel_max_gt_qphred (dindel A))"
    and pa: "indel_pos A = indel_pos (?buf ! 0)"
    and rs: "vcf_ref_seq (iri A)
          = get_substring e (indel_pos (?buf ! 0) - 1)
              (nat (indel_end_pos st - indel_pos (?buf ! 0) + 1))"
    by blast
  let ?ibuf = "?buf[0 := A, 1 := B]"
  from l0 l1 have n: "?ibuf ! 0 = A" "?ibuf ! 1 = B" "length ?ibuf = length ?buf"
    by simp_all
  from het len size have simple: "is_simple_indel_overlap ?buf (indel_buffer_size st) = Inr True"
    by (simp add: is_simple_indel_overlap_def)
  from size simple r have m: "modify_indel_records e st = Inr (st\<lparr> indel_buffer := ?ibuf \<rparr>, False)"
    by (simp add: modify_indel_records_def)
  have emit: "\<forall>sbuf. modify_sites e False ?ibuf [0..<site_buffer_size st] (site_buffer st) = Inr sbuf \<longrightarrow>
            process_overlaps e st =
              (case run_actions e (EmitIndel 0 # map EmitSite [0..<site_buffer_size st])
                      (finalized_group st ?ibuf sbuf) of
                 Inl err \<Rightarrow> Inl err
               | Inr st3 \<Rightarrow> Inr (st3\<lparr> indel_buffer_size := 0, site_buffer_size := 0 \<rparr>))"
  proof (intro allI impI)
    fix sbuf
    assume ms: "modify_sites e False ?ibuf [0..<site_buffer_size st] (site_buffer st) = Inr sbuf"
    let ?fg = "finalized_group st ?ibuf sbuf"
    from modify_sites_nth [OF ms] have ls: "length sbuf = length (site_buffer st)"
      by simp
    note fg = finalized_group_fields
    have ord: "\<forall>j<site_buffer_size ?fg. indel_pos (indel_buffer ?fg ! 0) \<le> pos (site_buffer ?fg ! j)"
    proof (intro allI impI)
      fix j assume "j < site_buffer_size ?fg"
      then have j: "j < site_buffer_size st" by (simp add: fg)
      then have "j \<in> set [0..<site_buffer_size st]" by simp
      with modify_sites_nth [OF ms] have "0 \<le> pos (site_buffer st ! j) - indel_pos (?ibuf ! 0)"
        by auto
      moreover from modify_sites_overlap_at [OF ms j] modify_indel_overlap_site_pos
      have "pos (sbuf ! j) = pos (site_buffer st ! j)" by blast
      ultimately show "indel_pos (indel_buffer ?fg ! 0) \<le> pos (site_buffer ?fg ! j)"
        by (simp add: fg)
    qed
    have "emit_records e False 0 0 ?fg
            = run_actions e (EmitIndel 0 # map EmitSite [0..<site_buffer_size ?fg]) ?fg"
      by (rule emit_records_simple) (use size n len sl ls ord in \<open>simp_all add: fg\<close>)
    with process_overlaps_unfold [OF _ m ms] size
    show "process_overlaps e st =
              (case run_actions e (EmitIndel 0 # map EmitSite [0..<site_buffer_size st])
                      (finalized_group st ?ibuf sbuf) of
                 Inl err \<Rightarrow> Inl err
               | Inr st3 \<Rightarrow> Inr (st3\<lparr> indel_buffer_size := 0, site_buffer_size := 0 \<rparr>))"
      by (simp add: fg)
  qed
  have wr: "\<forall>s. indel_buffer s = ?ibuf \<and> 0 < indel_buffer_size s \<longrightarrow>
            write_indel_record e 0 s =
              Inr ((write_block_site_record e s)
                     \<lparr> os := os (write_block_site_record e s)
                          @ chrom s @ tab @ show_int (indel_pos A) @ tab
                          @ ''.'' @ tab
                          @ vcf_ref_seq (iri A) @ tab
                          @ vcf_indel_seq (iri A) @ '','' @ vcf_indel_seq (iri B) @ tab
                          @ show_int (indel_qphred (dindel A)) @ tab
                          @ write_filters e (imod_filters (imod A)) @ tab
                          @ ''CIGAR='' @ cigar_str e (cigar (imod A)) @ '',''
                          @ cigar_str e (cigar (imod B)) @ tab
                          @ ''GT:GQX'' @ tab
                          @ indel_get_gt e A @ '':'' @ show_int (imod_gqx (imod A))
                          @ newline \<rparr>)"
  proof (intro allI impI)
    fix s :: gvcf_aggregator
    assume s: "indel_buffer s = ?ibuf \<and> 0 < indel_buffer_size s"
    from write_block_site_record_same [of s e]
    have sb: "indel_buffer (write_block_site_record e s) = ?ibuf"
      "chrom (write_block_site_record e s) = chrom s"
      using s by (simp_all add: same_buffers_def)
    from s n l1 ov have "write_indel_record e 0 s =
           Inr ((write_block_site_record e s)
                  \<lparr> os := os (write_block_site_record e s)
                           @ indel_record_text e (write_block_site_record e s) 0 (0 + 1) \<rparr>)"
      by (intro write_indel_record_pair) simp_all
    then show "write_indel_record e 0 s =
              Inr ((write_block_site_record e s)
                     \<lparr> os := os (write_block_site_record e s)
                          @ chrom s @ tab @ show_int (indel_pos A) @ tab
                          @ ''.'' @ tab
                          @ vcf_ref_seq (iri A) @ tab
                          @ vcf_indel_seq (iri A) @ '','' @ vcf_indel_seq (iri B) @ tab
                          @ show_int (indel_qphred (dindel A)) @ tab
                          @ write_filters e (imod_filters (imod A)) @ tab
                          @ ''CIGAR='' @ cigar_str e (cigar (imod A)) @ '',''
                          @ cigar_str e (cigar (imod B)) @ tab
                          @ ''GT:GQX'' @ tab
                          @ indel_get_gt e A @ '':'' @ show_int (imod_gqx (imod A))
                          @ newline \<rparr>)"
      unfolding indel_record_text_pair sb using n by simp
  qed
  from m ov q1 q2 q3 rs emit wr show ?thesis
    by blast
qed

theorem simple_overlap_one_combined_record_witness:
  "overlap_group_ok example_overlap_state
   \<and> is_het_indel (dindel (indel_buffer example_overlap_state ! 0))
   \<and> is_het_indel (dindel (indel_buffer example_overlap_state ! 1))
   \<and> site_buffer_size example_overlap_state \<le> length (site_buffer example_overlap_state)
   \<and> (\<exists>A B. modify_indel_records example_env example_overlap_state
               = Inr (example_overlap_state
                        \<lparr> indel_buffer := (indel_buffer example_overlap_state)[0 := A, 1 := B] \<rparr>,
                      False)
         \<and> indel_qphred (dindel A) = 50 \<and> dindel_max_gt_qphred (dindel A) = 45
         \<and> imod_gqx (imod A) = 45)
   \<and> (case process_overlaps example_env example_overlap_state of
        Inl err \<Rightarrow> False
      | Inr st' \<Rightarrow>
          os st' = ''INDEL_SIZE: 2'' @ newline
             @ ''chr1'' @ tab @ ''5'' @ tab @ ''.'' @ tab @ ''ACGTACGT'' @ tab @ ''CACGT,ACTG'' @ tab @ ''50'' @ tab @ ''PASS'' @ tab @ ''CIGAR=1M3D4M,3M5D1I'' @ tab @ ''GT:GQX'' @ tab @ ''1/2:45'' @ newline
             @ ''chr1'' @ tab @ ''7'' @ tab @ ''.'' @ tab @ ''A'' @ tab @ ''.'' @ tab @ ''50'' @ tab @ ''SiteConflict;'' @ tab @ ''.'' @ tab @ ''GT:GQX'' @ tab @ ''.;45'' @ newline)"
proof -
  have ok: "overlap_group_ok example_overlap_state"
    by code_simp
  have het: "is_het_indel (dindel (indel_buffer example_overlap_state ! 0))"
    "is_het_indel (dindel (indel_buffer example_overlap_state ! 1))"
    by code_simp+
  have sl: "site_buffer_size example_overlap_state \<le> length (site_buffer example_overlap_state)"
    by code_simp
  have q: "min (indel_qphred (dindel (indel_buffer example_overlap_state ! 0)))
               (indel_qphred (dindel (indel_buffer example_overlap_state ! 1))) = 50"
    "min (dindel_max_gt_qphred (dindel (indel_buffer example_overlap_state ! 0)))
         (dindel_max_gt_qphred (dindel (indel_buffer example_overlap_state ! 1))) = 45"
    by code_simp+
  have ev: "case process_overlaps example_env example_overlap_state of
        Inl err \<Rightarrow> False
      | Inr st' \<Rightarrow>
          os st' = ''INDEL_SIZE: 2'' @ newline
             @ ''chr1'' @ tab @ ''5'' @ tab @ ''.'' @ tab @ ''ACGTACGT'' @ tab @ ''CACGT,ACTG'' @ tab @ ''50'' @ tab @ ''PASS'' @ tab @ ''CIGAR=1M3D4M,3M5D1I'' @ tab @ ''GT:GQX'' @ tab @ ''1/2:45'' @ newline
             @ ''chr1'' @ tab @ ''7'' @ tab @ ''.'' @ tab @ ''A'' @ tab @ ''.'' @ tab @ ''50'' @ tab @ ''SiteConflict;'' @ tab @ ''.'' @ tab @ ''GT:GQX'' @ tab @ ''.;45'' @ newline"
    by code_simp
  from simple_overlap_one_combined_record [OF ok het sl, of example_env] obtain A B where
    "modify_indel_records example_env example_overlap_state
       = Inr (example_overlap_state
                \<lparr> indel_buffer := (indel_buffer example_overlap_state)[0 := A, 1 := B] \<rparr>, False)"
    "indel_qphred (dindel A) = 50" "dindel_max_gt_qphred (dindel A) = 45"
    "imod_gqx (imod A) = 45"
    unfolding q by auto
  with ok het sl ev show ?thesis
    by blast
qed

text \<open>
  C6 fails on the code for a group of two heterozygous indels whose right bound
  \<^verbatim>\<open>add_indel\<close> has set below the right boundary of the first member (its last
  statement overwrites the maximum taken before). After a heterozygous deletion of ten bases at 5 and a
  heterozygous deletion of one base at 7 the members reach from 5 to 15 and
  from 7 to 8, and the right bound is 8: the ploidy vector is resized to three
  entries, not to the ten positions of the group, and the fold of the first
  member's alignment path indexes it past its end.
\<close>

theorem nested_overlap_ploidy_vector_too_short:
  "(case nested_deletions of
      Inl err \<Rightarrow> False
    | Inr st2 \<Rightarrow>
        indel_buffer_size st2 = 2
        \<and> is_het_indel (dindel (indel_buffer st2 ! 0))
        \<and> is_het_indel (dindel (indel_buffer st2 ! 1))
        \<and> map (\<lambda>ii. (indel_pos ii, right_pos (ik ii))) (take 2 (indel_buffer st2))
            = [(5, 15), (7, 8)]
        \<and> resize (nat (indel_end_pos st2 - indel_pos (indel_buffer st2 ! 0)))
             (ploidy (imod (indel_buffer st2 ! 0))) = [0, 0, 0]
        \<and> modify_overlap_indel_record example_env st2 = Inl OutOfRange)"
proof -
  have pre: "case nested_deletions of
      Inl err \<Rightarrow> False
    | Inr st2 \<Rightarrow>
        indel_buffer_size st2 = 2
        \<and> is_het_indel (dindel (indel_buffer st2 ! 0))
        \<and> is_het_indel (dindel (indel_buffer st2 ! 1))
        \<and> map (\<lambda>ii. (indel_pos ii, right_pos (ik ii))) (take 2 (indel_buffer st2))
            = [(5, 15), (7, 8)]
        \<and> resize (nat (indel_end_pos st2 - indel_pos (indel_buffer st2 ! 0)))
             (ploidy (imod (indel_buffer st2 ! 0))) = [0, 0, 0]"
    by code_simp
  obtain st2 where n: "nested_deletions = Inr st2" and b2: "below_boundary st2"
    by (rule nested_deletions_state)
  from b2 have "modify_overlap_indel_record example_env st2 = Inl OutOfRange"
    by (rule modify_overlap_below)
  with pre show ?thesis
    unfolding n by simp
qed

text \<open>
  Where the buffer's invariants hold, among them a right bound that is not below
  the right boundary of a member, the simple overlap path gives the first
  record a ploidy vector with one entry for each position from the first
  member's position up to the right bound. It is the fold of the first and then
  the second member's alignment path into a vector of zeros, and the entry of a
  position is the number of the two haplotypes whose deletion does not contain
  the position: 1 inside the deletion of one haplotype only, 2 where both
  haplotypes match, 0 inside both deletions. The inserted length of a member
  has no part in it.
\<close>

theorem overlap_ploidy_vector:
  assumes "overlap_group_ok st"
  shows "\<exists>st'. modify_overlap_indel_record e st = Inr st'
           \<and> ploidy (imod (indel_buffer st' ! 0))
               = expected_ploidy (indel_buffer st ! 0) (indel_buffer st ! 1) (indel_end_pos st)
           \<and> length (ploidy (imod (indel_buffer st' ! 0)))
               = nat (indel_end_pos st - indel_pos (indel_buffer st ! 0))
           \<and> cigar (imod (indel_buffer st' ! 0))
               = get_hap_cigar (ik (indel_buffer st ! 0)) 1
                   (nat (indel_end_pos st - right_pos (ik (indel_buffer st ! 0))))
           \<and> cigar (imod (indel_buffer st' ! 1))
               = get_hap_cigar (ik (indel_buffer st ! 1))
                   (nat (indel_pos (indel_buffer st ! 1) - indel_pos (indel_buffer st ! 0)) + 1)
                   (nat (indel_end_pos st - right_pos (ik (indel_buffer st ! 1))))
           \<and> (\<exists>v. add_cigar_to_ploidy (cigar (imod (indel_buffer st' ! 0)))
                     (replicate (nat (indel_end_pos st - indel_pos (indel_buffer st ! 0))) 0)
                   = Inr v
                 \<and> add_cigar_to_ploidy (cigar (imod (indel_buffer st' ! 1))) v
                   = Inr (ploidy (imod (indel_buffer st' ! 0))))"
proof -
  from assms have len: "2 \<le> length (indel_buffer st)"
    by (simp add: overlap_group_ok_def)
  from modify_overlap_indel_record_result [OF assms, of e] obtain A B where
    r: "modify_overlap_indel_record e st
          = Inr (st\<lparr> indel_buffer := (indel_buffer st)[0 := A, 1 := B] \<rparr>)"
    and p: "ploidy (imod A)
          = expected_ploidy (indel_buffer st ! 0) (indel_buffer st ! 1) (indel_end_pos st)"
    and ca: "cigar (imod A) = get_hap_cigar (ik (indel_buffer st ! 0)) 1
                 (nat (indel_end_pos st - right_pos (ik (indel_buffer st ! 0))))"
    and cb: "cigar (imod B) = get_hap_cigar (ik (indel_buffer st ! 1))
                 (nat (indel_pos (indel_buffer st ! 1) - indel_pos (indel_buffer st ! 0)) + 1)
                 (nat (indel_end_pos st - right_pos (ik (indel_buffer st ! 1))))"
    and f: "\<exists>v. add_cigar_to_ploidy (cigar (imod A))
                     (replicate (nat (indel_end_pos st - indel_pos (indel_buffer st ! 0))) 0)
                   = Inr v
                 \<and> add_cigar_to_ploidy (cigar (imod B)) v = Inr (ploidy (imod A))"
    by blast
  let ?st' = "st\<lparr> indel_buffer := (indel_buffer st)[0 := A, 1 := B] \<rparr>"
  from len have "0 < length (indel_buffer st)" "1 < length (indel_buffer st)"
    by linarith+
  then have n: "indel_buffer ?st' ! 0 = A" "indel_buffer ?st' ! 1 = B"
    by simp_all
  have "length (expected_ploidy (indel_buffer st ! 0) (indel_buffer st ! 1) (indel_end_pos st))
          = nat (indel_end_pos st - indel_pos (indel_buffer st ! 0))"
    by (simp add: expected_ploidy_def)
  with r p ca cb f n show ?thesis
    by (intro exI [of _ ?st']) (simp del: One_nat_def)
qed

theorem overlap_ploidy_vector_witness:
  "overlap_group_ok example_overlap_state
   \<and> (\<exists>st'. modify_overlap_indel_record example_env example_overlap_state = Inr st'
         \<and> ploidy (imod (indel_buffer st' ! 0)) = [1, 1, 0, 1, 1, 1, 1]
         \<and> cigar (imod (indel_buffer st' ! 0)) = [(MATCH, 1), (DELETE, 3), (MATCH, 4)]
         \<and> cigar (imod (indel_buffer st' ! 1)) = [(MATCH, 3), (DELETE, 5), (INSERT, 1)])
   \<and> overlap_group_ok example_apart_state
   \<and> (\<exists>st'. modify_overlap_indel_record example_env example_apart_state = Inr st'
         \<and> ploidy (imod (indel_buffer st' ! 0)) = [1, 2, 2, 1, 1]
         \<and> cigar (imod (indel_buffer st' ! 0)) = [(MATCH, 1), (DELETE, 1), (MATCH, 4)]
         \<and> cigar (imod (indel_buffer st' ! 1)) = [(MATCH, 4), (DELETE, 2)])"
proof -
  have ok: "overlap_group_ok example_overlap_state"
    by code_simp
  have ex: "expected_ploidy (indel_buffer example_overlap_state ! 0)
              (indel_buffer example_overlap_state ! 1) (indel_end_pos example_overlap_state)
            = [1, 1, 0, 1, 1, 1, 1]"
    by code_simp
  have c: "get_hap_cigar (ik (indel_buffer example_overlap_state ! 0)) 1
             (nat (indel_end_pos example_overlap_state
                   - right_pos (ik (indel_buffer example_overlap_state ! 0))))
           = [(MATCH, 1), (DELETE, 3), (MATCH, 4)]"
    "get_hap_cigar (ik (indel_buffer example_overlap_state ! 1))
       (nat (indel_pos (indel_buffer example_overlap_state ! 1)
             - indel_pos (indel_buffer example_overlap_state ! 0)) + 1)
       (nat (indel_end_pos example_overlap_state
             - right_pos (ik (indel_buffer example_overlap_state ! 1))))
     = [(MATCH, 3), (DELETE, 5), (INSERT, 1)]"
    by code_simp+
  have ok2: "overlap_group_ok example_apart_state"
    by code_simp
  have ex2: "expected_ploidy (indel_buffer example_apart_state ! 0)
              (indel_buffer example_apart_state ! 1) (indel_end_pos example_apart_state)
            = [1, 2, 2, 1, 1]"
    by code_simp
  have c2: "get_hap_cigar (ik (indel_buffer example_apart_state ! 0)) 1
             (nat (indel_end_pos example_apart_state
                   - right_pos (ik (indel_buffer example_apart_state ! 0))))
           = [(MATCH, 1), (DELETE, 1), (MATCH, 4)]"
    "get_hap_cigar (ik (indel_buffer example_apart_state ! 1))
       (nat (indel_pos (indel_buffer example_apart_state ! 1)
             - indel_pos (indel_buffer example_apart_state ! 0)) + 1)
       (nat (indel_end_pos example_apart_state
             - right_pos (ik (indel_buffer example_apart_state ! 1))))
     = [(MATCH, 4), (DELETE, 2)]"
    by code_simp+
  from overlap_ploidy_vector [OF ok, of example_env] ex c
  have first: "\<exists>st'. modify_overlap_indel_record example_env example_overlap_state = Inr st'
         \<and> ploidy (imod (indel_buffer st' ! 0)) = [1, 1, 0, 1, 1, 1, 1]
         \<and> cigar (imod (indel_buffer st' ! 0)) = [(MATCH, 1), (DELETE, 3), (MATCH, 4)]
         \<and> cigar (imod (indel_buffer st' ! 1)) = [(MATCH, 3), (DELETE, 5), (INSERT, 1)]"
    by auto
  from overlap_ploidy_vector [OF ok2, of example_env] ex2 c2
  have second: "\<exists>st'. modify_overlap_indel_record example_env example_apart_state = Inr st'
         \<and> ploidy (imod (indel_buffer st' ! 0)) = [1, 2, 2, 1, 1]
         \<and> cigar (imod (indel_buffer st' ! 0)) = [(MATCH, 1), (DELETE, 1), (MATCH, 4)]
         \<and> cigar (imod (indel_buffer st' ! 1)) = [(MATCH, 4), (DELETE, 2)]"
    by auto
  from ok ok2 first second show ?thesis
    by blast
qed

text \<open>
  C7: a buffered site of a group that is not a conflict is replaced by the
  result of \<^verbatim>\<open>modify_indel_overlap_site\<close> at the ploidy looked up at its
  offset. With ploidy 1 and a heterozygous chosen genotype the output genotype
  is \<open>UNKNOWN\<close>, the site-conflict filter is set, and the quality and the
  genotype quality are the minimum of the site's and the indel's. With ploidy 0
  the output genotype is \<open>UNKNOWN\<close> and the zero-ploidy flag is set. Any other
  ploidy fails the assertion.
\<close>

theorem modify_indel_overlap_site_ploidy:
  "(pl = 1 \<and> digt_is_het e (max_gt (smod si)) \<longrightarrow>
      (\<exists>si'. modify_indel_overlap_site e ii pl si = Inr si'
         \<and> modified_gt (smod si') = UNKNOWN \<and> SiteConflict \<in> filters (smod si')
         \<and> snp_qphred (genome (dgt si')) = min (snp_qphred (genome (dgt si))) (indel_qphred (dindel ii))
         \<and> gqx (smod si') = min (gqx (smod si)) (dindel_max_gt_qphred (dindel ii))))
   \<and> (pl = 0 \<longrightarrow>
      (\<exists>si'. modify_indel_overlap_site e ii pl si = Inr si'
         \<and> modified_gt (smod si') = UNKNOWN \<and> is_zero_ploidy (smod si')))
   \<and> (pl \<noteq> 0 \<and> pl \<noteq> 1 \<longrightarrow> modify_indel_overlap_site e ii pl si = Inl AssertFailed)
   \<and> (modify_sites e False ibuf [0..<n] sbuf = Inr sbuf' \<and> i < n \<longrightarrow>
      (\<exists>p. get_ploidy e (ibuf ! 0) (pos (sbuf ! i) - indel_pos (ibuf ! 0)) = Inr p
         \<and> modify_indel_overlap_site e (ibuf ! 0) p (sbuf ! i) = Inr (sbuf' ! i)))"
proof (intro conjI impI)
  assume h: "pl = 1 \<and> digt_is_het e (max_gt (smod si))"
  then obtain si' where r: "modify_indel_overlap_site e ii 1 si = Inr si'"
    by (simp add: modify_indel_overlap_site_def Let_def)
  from modify_indel_overlap_site_one [OF r] h r
  show "\<exists>si'. modify_indel_overlap_site e ii pl si = Inr si'
         \<and> modified_gt (smod si') = UNKNOWN \<and> SiteConflict \<in> filters (smod si')
         \<and> snp_qphred (genome (dgt si')) = min (snp_qphred (genome (dgt si))) (indel_qphred (dindel ii))
         \<and> gqx (smod si') = min (gqx (smod si)) (dindel_max_gt_qphred (dindel ii))"
    by simp
next
  assume "pl = 0"
  then show "\<exists>si'. modify_indel_overlap_site e ii pl si = Inr si'
         \<and> modified_gt (smod si') = UNKNOWN \<and> is_zero_ploidy (smod si')"
    by (simp add: modify_indel_overlap_site_def set_site_filters_fields Let_def)
next
  assume "pl \<noteq> 0 \<and> pl \<noteq> 1"
  then show "modify_indel_overlap_site e ii pl si = Inl AssertFailed"
    by (simp add: modify_indel_overlap_site_def Let_def)
next
  assume h: "modify_sites e False ibuf [0..<n] sbuf = Inr sbuf' \<and> i < n"
  then have "modify_sites e False ibuf [0..<n] sbuf = Inr sbuf'" and "i < n"
    by simp_all
  then show "\<exists>p. get_ploidy e (ibuf ! 0) (pos (sbuf ! i) - indel_pos (ibuf ! 0)) = Inr p
         \<and> modify_indel_overlap_site e (ibuf ! 0) p (sbuf ! i) = Inr (sbuf' ! i)"
    by (rule modify_sites_overlap_at)
qed

theorem modify_indel_overlap_site_ploidy_witness:
  "(\<exists>si'. modify_indel_overlap_site example_env example_indel 1 example_het_site = Inr si'
         \<and> modified_gt (smod si') = UNKNOWN \<and> SiteConflict \<in> filters (smod si')
         \<and> snp_qphred (genome (dgt si')) = 60 \<and> gqx (smod si') = 45)
   \<and> (\<exists>si'. modify_indel_overlap_site example_env example_indel 0 example_het_site = Inr si'
         \<and> modified_gt (smod si') = UNKNOWN \<and> is_zero_ploidy (smod si'))
   \<and> modify_indel_overlap_site example_env example_indel 2 example_het_site = Inl AssertFailed
   \<and> modify_sites example_env False [example_indel] [0..<1] [example_het_site]
       = Inr [example_het_site\<lparr>
        dgt := (dgt example_het_site)\<lparr> genome := \<lparr> rs_max_gt = 4, rs_max_gt_qphred = 70, snp_qphred = 60 \<rparr> \<rparr>,
        smod := smod_clear\<lparr> is_covered := True, is_used_covered := True, max_gt := 4, gqx := 45,
                  filters := {SiteConflict, HighDepth}, modified_gt := UNKNOWN \<rparr> \<rparr>]
   \<and> get_ploidy example_env example_indel (pos example_het_site - indel_pos example_indel) = Inr 1"
proof -
  have het: "digt_is_het example_env (max_gt (smod example_het_site))"
    by (simp add: example_env_def example_het_site_def smod_clear_def)
  have pl: "get_ploidy example_env example_indel (pos example_het_site - indel_pos example_indel) = Inr 1"
    by (simp add: example_env_def example_indel_def imod_clear_def)
  have off: "0 \<le> pos example_het_site - indel_pos example_indel"
    by (simp add: example_het_site_def example_site_def example_indel_def)
  have loop: "modify_sites example_env False [example_indel] [0..<1] [example_het_site]
       = Inr [example_het_site\<lparr>
        dgt := (dgt example_het_site)\<lparr> genome := \<lparr> rs_max_gt = 4, rs_max_gt_qphred = 70, snp_qphred = 60 \<rparr> \<rparr>,
        smod := smod_clear\<lparr> is_covered := True, is_used_covered := True, max_gt := 4, gqx := 45,
                  filters := {SiteConflict, HighDepth}, modified_gt := UNKNOWN \<rparr> \<rparr>]"
    using pl off example_overlap_site_1 by (simp add: Let_def)
  have q: "min (snp_qphred (genome (dgt example_het_site))) (indel_qphred (dindel example_indel)) = 60"
    "min (gqx (smod example_het_site)) (dindel_max_gt_qphred (dindel example_indel)) = 45"
    by (simp_all add: example_het_site_def example_indel_def smod_clear_def)
  from modify_indel_overlap_site_ploidy [of 1 example_env example_het_site example_indel]
    modify_indel_overlap_site_ploidy [of 0 example_env example_het_site example_indel]
    modify_indel_overlap_site_ploidy [of 2 example_env example_het_site example_indel]
    het loop pl q
  show ?thesis
    by simp
qed

text \<open>
  C8: when a group that is not a conflict is finalized, the filters of a
  buffered site become the intersection of its own filters with the filters of
  the first indel record; the site-conflict filter and the filters of the
  quality and depth rules are added to that intersection afterwards.
\<close>

theorem overlap_site_filters_intersection:
  "modify_sites e False ibuf [0..<n] sbuf = Inr sbuf' \<and> i < n \<longrightarrow>
     (\<exists>pl. get_ploidy e (ibuf ! 0) (pos (sbuf ! i) - indel_pos (ibuf ! 0)) = Inr pl
        \<and> modify_indel_overlap_site e (ibuf ! 0) pl (sbuf ! i) = Inr (sbuf' ! i)
        \<and> filters (smod (sbuf' ! i)) =
            (filters (smod (sbuf ! i)) \<inter> imod_filters (imod (ibuf ! 0)))
            \<union> (if pl = 1 \<and> digt_is_het e (max_gt (smod (sbuf ! i))) then {SiteConflict} else {})
            \<union> (if is_gvcf_min_gqx (opt e) \<and> gqx (smod (sbuf' ! i)) < gvcf_min_gqx (opt e)
                then {LowGQX} else {})
            \<union> (if is_gvcf_max_depth (opt e)
                   \<and> n_used_calls (sbuf ! i) + n_unused_calls (sbuf ! i) > gvcf_max_depth (opt e)
                then {HighDepth} else {}))"
proof
  assume h: "modify_sites e False ibuf [0..<n] sbuf = Inr sbuf' \<and> i < n"
  then have "modify_sites e False ibuf [0..<n] sbuf = Inr sbuf'" and "i < n"
    by simp_all
  from modify_sites_overlap_at [OF this]
  obtain pl where p: "get_ploidy e (ibuf ! 0) (pos (sbuf ! i) - indel_pos (ibuf ! 0)) = Inr pl"
    and m: "modify_indel_overlap_site e (ibuf ! 0) pl (sbuf ! i) = Inr (sbuf' ! i)"
    by blast
  from p m modify_indel_overlap_site_filters [OF m]
  show "\<exists>pl. get_ploidy e (ibuf ! 0) (pos (sbuf ! i) - indel_pos (ibuf ! 0)) = Inr pl
        \<and> modify_indel_overlap_site e (ibuf ! 0) pl (sbuf ! i) = Inr (sbuf' ! i)
        \<and> filters (smod (sbuf' ! i)) =
            (filters (smod (sbuf ! i)) \<inter> imod_filters (imod (ibuf ! 0)))
            \<union> (if pl = 1 \<and> digt_is_het e (max_gt (smod (sbuf ! i))) then {SiteConflict} else {})
            \<union> (if is_gvcf_min_gqx (opt e) \<and> gqx (smod (sbuf' ! i)) < gvcf_min_gqx (opt e)
                then {LowGQX} else {})
            \<union> (if is_gvcf_max_depth (opt e)
                   \<and> n_used_calls (sbuf ! i) + n_unused_calls (sbuf ! i) > gvcf_max_depth (opt e)
                then {HighDepth} else {})"
    by blast
qed

theorem overlap_site_filters_intersection_witness:
  "filters (smod example_het_site) = {LowGQX, HighDepth}
   \<and> imod_filters (imod example_indel) = {HighDepth}
   \<and> (\<exists>sbuf'. modify_sites example_env False [example_indel] [0..<1] [example_het_site] = Inr sbuf'
        \<and> filters (smod (sbuf' ! 0)) = {SiteConflict, HighDepth})"
proof -
  have f: "filters (smod example_het_site) = {LowGQX, HighDepth}"
    "imod_filters (imod example_indel) = {HighDepth}"
    by (simp_all add: example_het_site_def example_indel_def smod_clear_def imod_clear_def)
  have "filters (smod example_het_site) \<inter> imod_filters (imod example_indel) = {HighDepth}"
    unfolding f by simp
  moreover have "digt_is_het example_env (max_gt (smod example_het_site))"
    "is_gvcf_min_gqx (opt example_env)" "gvcf_min_gqx (opt example_env) = 30"
    "is_gvcf_max_depth (opt example_env)" "gvcf_max_depth (opt example_env) = 100"
    "n_used_calls example_het_site + n_unused_calls example_het_site = 21"
    by (simp_all add: example_env_def example_opt_def example_het_site_def example_site_def smod_clear_def)
  moreover have "get_ploidy example_env example_indel (pos example_het_site - indel_pos example_indel) = Inr 1"
    by (simp add: example_env_def example_indel_def imod_clear_def)
  ultimately have "filters (smod ([example_het_site\<lparr>
        dgt := (dgt example_het_site)\<lparr> genome := \<lparr> rs_max_gt = 4, rs_max_gt_qphred = 70, snp_qphred = 60 \<rparr> \<rparr>,
        smod := smod_clear\<lparr> is_covered := True, is_used_covered := True, max_gt := 4, gqx := 45,
                  filters := {SiteConflict, HighDepth}, modified_gt := UNKNOWN \<rparr> \<rparr>] ! 0))
      = {SiteConflict, HighDepth}"
    using overlap_site_filters_intersection [of example_env "[example_indel]" 1 "[example_het_site]" _ 0]
      example_modify_sites
    by (simp add: insert_commute)
  with f example_modify_sites show ?thesis
    by simp
qed



text \<open>
  The invariants of the conflict path hold in the state that the calls of
  \<^verbatim>\<open>add_indel\<close> and \<^verbatim>\<open>add_site\<close> build for three indels and a site
  between them; the buffer of sites holds the empty site that \<open>skip_to_pos\<close>
  adds at position 5 and the site at 6.
\<close>

lemma conflict_calls_group_ok:
  "(case conflict_calls of
      Inl err \<Rightarrow> False
    | Inr st \<Rightarrow> indel_buffer_size st = 3
                \<and> map pos (take (site_buffer_size st) (site_buffer st)) = [5, 6]
                \<and> conflict_group_ok example_env st)"
  by code_simp

text \<open>
  C10: a site whose reference base is \<open>N\<close> gets GQX 0 and genotype 0. For a
  site with a known reference base: when the genome-prior and the
  polymorphism-prior models choose different genotypes the GQX is 0 and the
  genotype is the genome model's; when they agree, genotype and GQX are those
  of the model with the smaller genotype quality (the polymorphism model's on a
  tie).
\<close>

theorem add_site_modifiers_gt_gqx:
  "(ref si = CHR ''N'' \<longrightarrow>
      gqx (smod (add_site_modifiers op si)) = 0 \<and> max_gt (smod (add_site_modifiers op si)) = 0)
   \<and> (ref si \<noteq> CHR ''N'' \<and> rs_max_gt (genome (dgt si)) \<noteq> rs_max_gt (poly (dgt si)) \<longrightarrow>
      gqx (smod (add_site_modifiers op si)) = 0
      \<and> max_gt (smod (add_site_modifiers op si)) = rs_max_gt (genome (dgt si)))
   \<and> (ref si \<noteq> CHR ''N'' \<and> rs_max_gt (genome (dgt si)) = rs_max_gt (poly (dgt si))
       \<and> rs_max_gt_qphred (genome (dgt si)) < rs_max_gt_qphred (poly (dgt si)) \<longrightarrow>
      gqx (smod (add_site_modifiers op si)) = rs_max_gt_qphred (genome (dgt si))
      \<and> max_gt (smod (add_site_modifiers op si)) = rs_max_gt (genome (dgt si)))
   \<and> (ref si \<noteq> CHR ''N'' \<and> rs_max_gt (genome (dgt si)) = rs_max_gt (poly (dgt si))
       \<and> \<not> rs_max_gt_qphred (genome (dgt si)) < rs_max_gt_qphred (poly (dgt si)) \<longrightarrow>
      gqx (smod (add_site_modifiers op si)) = rs_max_gt_qphred (poly (dgt si))
      \<and> max_gt (smod (add_site_modifiers op si)) = rs_max_gt (poly (dgt si)))"
  by (simp add: add_site_modifiers_def set_site_filters_keeps set_site_gt_def Let_def)

theorem add_site_modifiers_gt_gqx_witness:
  "gqx (smod (add_site_modifiers example_opt (example_site\<lparr> ref := CHR ''N'' \<rparr>))) = 0
   \<and> max_gt (smod (add_site_modifiers example_opt (example_site\<lparr> ref := CHR ''N'' \<rparr>))) = 0
   \<and> gqx (smod (add_site_modifiers example_opt
        (example_site\<lparr> dgt := (dgt example_site)\<lparr> poly := (poly (dgt example_site))\<lparr> rs_max_gt := 4 \<rparr> \<rparr> \<rparr>))) = 0
   \<and> max_gt (smod (add_site_modifiers example_opt
        (example_site\<lparr> dgt := (dgt example_site)\<lparr> genome := (genome (dgt example_site))\<lparr> rs_max_gt := 4 \<rparr> \<rparr> \<rparr>))) = 4
   \<and> gqx (smod (add_site_modifiers example_opt example_site)) = 40
   \<and> max_gt (smod (add_site_modifiers example_opt example_site)) = 0
   \<and> gqx (smod (add_site_modifiers example_opt
        (example_site\<lparr> dgt := (dgt example_site)\<lparr> poly := (poly (dgt example_site))\<lparr> rs_max_gt_qphred := 60 \<rparr> \<rparr> \<rparr>))) = 50"
  using add_site_modifiers_gt_gqx [of "example_site\<lparr> ref := CHR ''N'' \<rparr>" example_opt]
    add_site_modifiers_gt_gqx [of "example_site\<lparr> dgt := (dgt example_site)\<lparr> poly := (poly (dgt example_site))\<lparr> rs_max_gt := 4 \<rparr> \<rparr> \<rparr>" example_opt]
    add_site_modifiers_gt_gqx [of "example_site\<lparr> dgt := (dgt example_site)\<lparr> genome := (genome (dgt example_site))\<lparr> rs_max_gt := 4 \<rparr> \<rparr> \<rparr>" example_opt]
    add_site_modifiers_gt_gqx [of example_site example_opt]
    add_site_modifiers_gt_gqx [of "example_site\<lparr> dgt := (dgt example_site)\<lparr> poly := (poly (dgt example_site))\<lparr> rs_max_gt_qphred := 60 \<rparr> \<rparr> \<rparr>" example_opt]
  by (simp add: example_site_def)

end
